theory Spec2Isabelle
  imports Main "HOL-Library.Multiset" "HOL-Library.Monad_Syntax" "HOL-Library.List_Lexorder" "HOL-Library.Product_Lexorder"
begin

section \<open>Host-language strings\<close>

text \<open>
  A string is a list of code units below 256: ASCII and Latin-1 text, a character of the
  model being the code unit of that number. On such text \<^verbatim>\<open>String.prototype.toLowerCase\<close>
  works unit by unit: it maps A to Z, and the Latin-1 capitals \<open>0xC0\<close> to \<open>0xD6\<close> and
  \<open>0xD8\<close> to \<open>0xDE\<close>, to the unit 32 above, and leaves every other unit alone.
\<close>

definition upperCaseUnits :: string where
  "upperCaseUnits =
     ''ABCDEFGHIJKLMNOPQRSTUVWXYZ''
     @ [CHR 0xC0, CHR 0xC1, CHR 0xC2, CHR 0xC3, CHR 0xC4, CHR 0xC5, CHR 0xC6, CHR 0xC7,
        CHR 0xC8, CHR 0xC9, CHR 0xCA, CHR 0xCB, CHR 0xCC, CHR 0xCD, CHR 0xCE, CHR 0xCF,
        CHR 0xD0, CHR 0xD1, CHR 0xD2, CHR 0xD3, CHR 0xD4, CHR 0xD5, CHR 0xD6,
        CHR 0xD8, CHR 0xD9, CHR 0xDA, CHR 0xDB, CHR 0xDC, CHR 0xDD, CHR 0xDE]"

definition lowerCaseUnits :: string where
  "lowerCaseUnits =
     ''abcdefghijklmnopqrstuvwxyz''
     @ [CHR 0xE0, CHR 0xE1, CHR 0xE2, CHR 0xE3, CHR 0xE4, CHR 0xE5, CHR 0xE6, CHR 0xE7,
        CHR 0xE8, CHR 0xE9, CHR 0xEA, CHR 0xEB, CHR 0xEC, CHR 0xED, CHR 0xEE, CHR 0xEF,
        CHR 0xF0, CHR 0xF1, CHR 0xF2, CHR 0xF3, CHR 0xF4, CHR 0xF5, CHR 0xF6,
        CHR 0xF8, CHR 0xF9, CHR 0xFA, CHR 0xFB, CHR 0xFC, CHR 0xFD, CHR 0xFE]"

definition lowerChar :: "char \<Rightarrow> char" where
  "lowerChar c =
     (case map_of (zip upperCaseUnits lowerCaseUnits) c of
        None \<Rightarrow> c
      | Some l \<Rightarrow> l)"

definition toLowerCase :: "string \<Rightarrow> string" where
  "toLowerCase s = map lowerChar s"

text \<open>\<^verbatim>\<open>Array.prototype.join\<close> on an array of strings.\<close>

fun join :: "string \<Rightarrow> string list \<Rightarrow> string" where
  "join sep [] = []"
| "join sep [x] = x"
| "join sep (x # y # ys) = x @ sep @ join sep (y # ys)"

text \<open>
  An optional string is \<open>None\<close> when the property is \<^verbatim>\<open>undefined\<close>. \<open>truthy\<close> is the
  test that \<^verbatim>\<open>if (v)\<close> and \<^verbatim>\<open>!v\<close> make on it, \<open>orDefault v d\<close> is \<^verbatim>\<open>v || d\<close> and
  \<open>orEmpty v\<close> is \<^verbatim>\<open>v || ''\<close>.
\<close>

definition truthy :: "string option \<Rightarrow> bool" where
  "truthy v = (case v of None \<Rightarrow> False | Some s \<Rightarrow> s \<noteq> [])"

definition orDefault :: "string option \<Rightarrow> string \<Rightarrow> string" where
  "orDefault v d = (case v of None \<Rightarrow> d | Some s \<Rightarrow> if s \<noteq> [] then s else d)"

definition orEmpty :: "string option \<Rightarrow> string" where
  "orEmpty v = orDefault v []"

text \<open>
  \<^verbatim>\<open>findIndex\<close>: the index of the first element that satisfies the predicate, \<open>-1\<close> when
  there is none.
\<close>

fun findIndex :: "('a \<Rightarrow> bool) \<Rightarrow> 'a list \<Rightarrow> int" where
  "findIndex P [] = -1"
| "findIndex P (x # xs) =
     (if P x then 0 else (let i = findIndex P xs in if i = -1 then -1 else i + 1))"

section \<open>Data model\<close>

text \<open>What the reporter reads of the host's \<^verbatim>\<open>TestCase\<close> and \<^verbatim>\<open>TestResult\<close>.\<close>

record Annotation =
  a_type :: string
  a_description :: "string option"

record TestCase =
  tc_id :: string
  tc_title :: string
  tc_titlePath :: "string list"
  tc_annotations :: "Annotation list"
  tc_file :: string
  tc_line :: int

record TestError =
  message :: "string option"
  stack :: "string option"

record TestResult =
  r_status :: string
  r_duration :: int
  r_errors :: "TestError list option"
  r_startTime :: int
  r_retry :: int

text \<open>
  The declarations of \<^verbatim>\<open>../types\<close> are not among the sources at hand; each record
  below has the properties that the reporter's object literals and assignments give it.
  Where two records have a property of the same name, one of them carries a prefix.

  \<^verbatim>\<open>TestMetadata\<close>: every property is optional and starts out \<^verbatim>\<open>undefined\<close>.
  \<open>parameters\<close> is a plain object from keys to strings.
\<close>

record TestMetadata =
  epic :: "string option"
  feature :: "string option"
  story :: "string option"
  suite :: "string option"
  subSuite :: "string option"
  parentSuite :: "string option"
  severity :: "string option"
  owner :: "string option"
  tags :: "string list option"
  description :: "string option"
  parameters :: "(string \<rightharpoonup> string) option"

record TestEntry =
  testId :: string
  name :: string
  fullTitle :: string
  status :: string
  duration :: int
  errorTrace :: "string option"
  metadata :: TestMetadata
  filePath :: string
  line :: int
  startTime :: string
  retries :: int

text \<open>
  The values that \<^verbatim>\<open>JSON.parse\<close> returns. A number stands by its decimal text; an
  object lists its properties in order, the empty object being \<open>JObject []\<close>.
\<close>

datatype json =
    JNull
  | JBool bool
  | JNumber string
  | JString string
  | JArray "json list"
  | JObject "(string \<times> json) list"

text \<open>
  \<^verbatim>\<open>ReportData\<close>, the summary built at the end of the run. \<open>comments\<close> is declared a
  \<^verbatim>\<open>Record<string, string>\<close> and holds whatever \<^verbatim>\<open>loadExistingComments\<close> returns.
\<close>

record ReportData =
  timestamp :: string
  totalTests :: nat
  passed :: nat
  failed :: nat
  skipped :: nat
  totalDuration :: int
  reportTests :: "TestEntry list"
  comments :: json

text \<open>
  The reporter object: \<^verbatim>\<open>this.tests\<close>, \<^verbatim>\<open>this.startTime\<close> (milliseconds),
  \<^verbatim>\<open>this.options\<close> after the constructor's defaults and \<^verbatim>\<open>this.outputDir\<close>.
  \<open>RawOptions\<close> is the constructor's argument, every property optional.
\<close>

record RawOptions =
  raw_outputDir :: "string option"
  raw_outputFile :: "string option"
  raw_open :: "bool option"
  raw_title :: "string option"
  raw_logo :: "string option"

record ReporterOptions =
  opt_outputDir :: string
  opt_outputFile :: string
  opt_open :: bool
  opt_title :: string
  opt_logo :: string

record Reporter =
  tests :: "TestEntry list"
  runStart :: int
  options :: ReporterOptions
  outputDir :: string

section \<open>The host\<close>

text \<open>
  What the reporter uses of its runtime is a parameter of the model: the file system
  (a path is absent, a directory, or a file with its content), the \<^verbatim>\<open>path\<close> functions,
  the working directory and \<^verbatim>\<open>__dirname\<close>, the JSON parser and serializers (with and
  without indentation), the default locale of the runtime and its collation for a given
  locale and options (used where the model of \<^verbatim>\<open>localeCompare\<close> below does not fix the
  result), and the clock.
  A primitive that can throw returns \<open>None\<close> when it does.
\<close>

text \<open>The options argument of \<^verbatim>\<open>localeCompare\<close>; a property left out is \<open>None\<close>.\<close>

record CollatorOptions =
  co_numeric :: "bool option"
  co_sensitivity :: "string option"

datatype Node = File string | Directory

record Host =
  files :: "string \<rightharpoonup> Node"
  path_join :: "string \<Rightarrow> string \<Rightarrow> string"
  path_resolve :: "string \<Rightarrow> string \<Rightarrow> string"
  path_extname :: "string \<Rightarrow> string"
  cwd :: string
  dirname :: string
  JSON_parse :: "string \<Rightarrow> json option"
  JSON_stringify :: "ReportData \<Rightarrow> string"
  JSON_stringify_indented :: "ReportData \<Rightarrow> string"
  defaultLocale :: string
  collate :: "string \<Rightarrow> CollatorOptions \<Rightarrow> string \<Rightarrow> string \<Rightarrow> int"
  nowMs :: int
  toISOString :: "int \<Rightarrow> string"

definition existsSync :: "Host \<Rightarrow> string \<Rightarrow> bool" where
  "existsSync h p = (files h p \<noteq> None)"

definition readFileSync :: "Host \<Rightarrow> string \<Rightarrow> string option" where
  "readFileSync h p = (case files h p of Some (File content) \<Rightarrow> Some content | _ \<Rightarrow> None)"

definition writeFileSync :: "Host \<Rightarrow> string \<Rightarrow> string \<Rightarrow> Host" where
  "writeFileSync h p content = h\<lparr>files := (files h)(p \<mapsto> File content)\<rparr>"

definition mkdirSync :: "Host \<Rightarrow> string \<Rightarrow> Host" where
  "mkdirSync h p = h\<lparr>files := (files h)(p \<mapsto> Directory)\<rparr>"

section \<open>Constructor and onBegin\<close>

definition CraftReporter :: "Host \<Rightarrow> RawOptions \<Rightarrow> Reporter" where
  "CraftReporter h opts =
     (let os = \<lparr>opt_outputDir = orDefault (raw_outputDir opts) ''craft-report'',
                opt_outputFile = orDefault (raw_outputFile opts) ''report.html'',
                opt_open = (case raw_open opts of None \<Rightarrow> False | Some b \<Rightarrow> b),
                opt_title = orDefault (raw_title opts) ''Craft Test Report'',
                opt_logo = orDefault (raw_logo opts) []\<rparr>
      in \<lparr>tests = [], runStart = nowMs h, options = os,
          outputDir = path_resolve h (cwd h) (opt_outputDir os)\<rparr>)"

definition onBegin :: "Host \<Rightarrow> Reporter \<Rightarrow> Reporter" where
  "onBegin h this = this\<lparr>runStart := nowMs h\<rparr>"

section \<open>extractMetadata\<close>

definition emptyMetadata :: TestMetadata where
  "emptyMetadata = \<lparr>epic = None, feature = None, story = None, suite = None, subSuite = None,
     parentSuite = None, severity = None, owner = None, tags = None, description = None,
     parameters = None\<rparr>"

text \<open>
  \<^verbatim>\<open>obj[key] = value\<close> on a plain object with a string value. The key \<^verbatim>\<open>__proto__\<close>
  reaches the setter inherited from \<^verbatim>\<open>Object.prototype\<close>, which ignores a value that is
  neither an object nor null: no own property is created.
\<close>

definition setProperty :: "(string \<rightharpoonup> string) \<Rightarrow> string \<Rightarrow> string \<Rightarrow> (string \<rightharpoonup> string)" where
  "setProperty obj k v = (if k = ''__proto__'' then obj else obj(k \<mapsto> v))"

text \<open>The body of the loop over the annotations (the \<^verbatim>\<open>switch\<close>, in the source's order).\<close>

definition applyAnnotation :: "TestMetadata \<Rightarrow> Annotation \<Rightarrow> TestMetadata" where
  "applyAnnotation m a =
     (let type = toLowerCase (a_type a); val = orEmpty (a_description a) in
      if type = ''epic'' then m\<lparr>epic := Some val\<rparr>
      else if type = ''feature'' then m\<lparr>feature := Some val\<rparr>
      else if type = ''story'' then m\<lparr>story := Some val\<rparr>
      else if type = ''suite'' then m\<lparr>suite := Some val\<rparr>
      else if type = ''subsuite'' then m\<lparr>subSuite := Some val\<rparr>
      else if type = ''parentsuite'' then m\<lparr>parentSuite := Some val\<rparr>
      else if type = ''severity'' then m\<lparr>severity := Some val\<rparr>
      else if type = ''owner'' then m\<lparr>owner := Some val\<rparr>
      else if type = ''tag'' then
        m\<lparr>tags := Some ((case tags m of None \<Rightarrow> [] | Some ts \<Rightarrow> ts) @ [val])\<rparr>
      else if type = ''description'' then m\<lparr>description := Some val\<rparr>
      else if val \<noteq> [] then
        m\<lparr>parameters :=
            Some (setProperty (case parameters m of None \<Rightarrow> Map.empty | Some p \<Rightarrow> p) type val)\<rparr>
      else m)"

definition annotationLoop :: "Annotation list \<Rightarrow> TestMetadata" where
  "annotationLoop annotations = foldl applyAnnotation emptyMetadata annotations"

text \<open>The back-fill from the title path; the indices read are below the length tested.\<close>

definition backfill :: "string list \<Rightarrow> TestMetadata \<Rightarrow> TestMetadata" where
  "backfill titlePath m0 =
     (if length titlePath > 1 then
        (let m1 = (if \<not> truthy (parentSuite m0) \<and> length titlePath > 1
                   then m0\<lparr>parentSuite := Some (titlePath ! 0)\<rparr> else m0);
             m2 = (if \<not> truthy (suite m1) \<and> length titlePath > 2
                   then m1\<lparr>suite := Some (titlePath ! 1)\<rparr> else m1);
             m3 = (if \<not> truthy (subSuite m2) \<and> length titlePath > 3
                   then m2\<lparr>subSuite := Some (titlePath ! 2)\<rparr> else m2)
         in m3)
      else m0)"

definition extractMetadata :: "TestCase \<Rightarrow> TestMetadata" where
  "extractMetadata test = backfill (tc_titlePath test) (annotationLoop (tc_annotations test))"

section \<open>formatErrors\<close>

definition errorText :: "TestError \<Rightarrow> string" where
  "errorText e =
     (let msg = orEmpty (message e) in
      case stack e of
        None \<Rightarrow> msg
      | Some st \<Rightarrow> if st \<noteq> [] then msg @ [CHR 0x0A] @ st else msg)"

definition formatErrors :: "TestError list option \<Rightarrow> string option" where
  "formatErrors errors =
     (case errors of
        None \<Rightarrow> None
      | Some es \<Rightarrow>
          if es = [] then None
          else Some (join ([CHR 0x0A] @ ''---'' @ [CHR 0x0A]) (map errorText es)))"

section \<open>onTestEnd\<close>

text \<open>Console output is not modelled.\<close>

definition makeEntry :: "Host \<Rightarrow> TestCase \<Rightarrow> TestResult \<Rightarrow> TestEntry" where
  "makeEntry h test result =
     \<lparr>testId = tc_id test,
      name = tc_title test,
      fullTitle = join '' > '' (tc_titlePath test),
      status = r_status result,
      duration = r_duration result,
      errorTrace = formatErrors (r_errors result),
      metadata = extractMetadata test,
      filePath = tc_file test,
      line = tc_line test,
      startTime = toISOString h (r_startTime result),
      retries = r_retry result\<rparr>"

definition onTestEnd :: "Host \<Rightarrow> Reporter \<Rightarrow> TestCase \<Rightarrow> TestResult \<Rightarrow> Reporter" where
  "onTestEnd h this test result =
     (let entry = makeEntry h test result;
          existingIndex = findIndex (\<lambda>t. testId t = tc_id test) (tests this)
      in if existingIndex \<noteq> -1
         then this\<lparr>tests := (tests this)[nat existingIndex := entry]\<rparr>
         else this\<lparr>tests := tests this @ [entry]\<rparr>)"

text \<open>A run: the constructor's reporter, then one \<open>onTestEnd\<close> per concluded attempt.\<close>

definition recordAll :: "Host \<Rightarrow> Reporter \<Rightarrow> (TestCase \<times> TestResult) list \<Rightarrow> Reporter" where
  "recordAll h this calls = foldl (\<lambda>s c. onTestEnd h s (fst c) (snd c)) this calls"

text \<open>
  For stating the retry rule: the identities of a list in the order of their first
  occurrence, and the entry built from the last call made for an identity.
\<close>

fun firstOccurrences :: "'a list \<Rightarrow> 'a list" where
  "firstOccurrences [] = []"
| "firstOccurrences (x # xs) = x # firstOccurrences (filter (\<lambda>y. y \<noteq> x) xs)"

definition lastOutcome :: "Host \<Rightarrow> (TestCase \<times> TestResult) list \<Rightarrow> string \<Rightarrow> TestEntry" where
  "lastOutcome h calls i =
     (let c = last (filter (\<lambda>c. tc_id (fst c) = i) calls) in makeEntry h (fst c) (snd c))"

section \<open>onEnd\<close>

text \<open>
  \<^verbatim>\<open>Array.prototype.sort\<close> with a comparison function. For a consistent comparison
  function the language fixes the result: the elements in ascending order, elements that
  compare equal in their original order. The model is the stable insertion sort, which
  computes that result.
\<close>

fun insertSorted :: "('a \<Rightarrow> 'a \<Rightarrow> int) \<Rightarrow> 'a \<Rightarrow> 'a list \<Rightarrow> 'a list" where
  "insertSorted cmp x [] = [x]"
| "insertSorted cmp x (y # ys) =
     (if cmp x y \<le> 0 then x # y # ys else y # insertSorted cmp x ys)"

definition sortWith :: "('a \<Rightarrow> 'a \<Rightarrow> int) \<Rightarrow> 'a list \<Rightarrow> 'a list" where
  "sortWith cmp xs = foldr (insertSorted cmp) xs []"

text \<open>
  The \<^verbatim>\<open>try\<close> block encloses both the read and the parse: either one throwing gives the
  empty object. A value that the parser returns is returned as it is.
\<close>

definition loadExistingComments :: "Host \<Rightarrow> Reporter \<Rightarrow> json" where
  "loadExistingComments h this =
     (let commentsPath = path_join h (outputDir this) ''comments.json'' in
      if existsSync h commentsPath then
        (case readFileSync h commentsPath of
           None \<Rightarrow> JObject []
         | Some content \<Rightarrow>
             (case JSON_parse h content of None \<Rightarrow> JObject [] | Some v \<Rightarrow> v))
      else JObject [])"

subsection \<open>localeCompare\<close>

text \<open>
  \<^verbatim>\<open>a.localeCompare(b, locales, options)\<close>. The locale is the one passed or, when
  \<open>locales\<close> is absent, the default locale of the runtime. The model fixes the result for
  an English locale with \<^verbatim>\<open>numeric: true\<close> and \<^verbatim>\<open>sensitivity: 'base'\<close>, on printable ASCII
  text of at most 254 characters. There the result is that of the root collation, which
  English uses unchanged, at primary strength and with numeric ordering:
  \<^item> the text is read as a sequence of elements: a maximal run of digits is one element,
    a number; every other character is an element of its own;
  \<^item> two texts compare by their first differing element, a text that is the beginning
    of another coming first;
  \<^item> the space and the punctuation marks and symbols come first, in the order of
    \<open>symbolOrder\<close>; then the numbers, by value (leading zeros do not count); then the
    letters, in alphabetical order, a capital being the same element as its small letter.

  Anywhere else (another locale, other options, other characters, longer text) the
  result is the host's.
\<close>

definition englishLocales :: "string list" where
  "englishLocales = [''en'', ''en-US'', ''en-GB'']"

definition symbolOrder :: string where
  \<open>symbolOrder =
     '' _-,;:!?.'' @ [CHR 0x27, CHR 0x22] @ ''()[]{}@*/'' @ [CHR 0x5C] @ ''&#%`^+<=>|~$''\<close>

definition isDigit :: "char \<Rightarrow> bool" where
  "isDigit c = (c \<in> set ''0123456789'')"

definition isLetter :: "char \<Rightarrow> bool" where
  "isLetter c = (c \<in> set ''abcdefghijklmnopqrstuvwxyz'')"

definition digitValue :: "char \<Rightarrow> nat" where
  "digitValue c = length (takeWhile (\<lambda>d. d \<noteq> c) ''0123456789'')"

definition digitsValue :: "nat \<Rightarrow> string \<Rightarrow> nat" where
  "digitsValue n ds = foldl (\<lambda>v c. 10 * v + digitValue c) n ds"

text \<open>
  The elements of a lower-cased text, each with its group (0 for the symbols, 1 for the
  numbers, 2 for the letters) and its place in the group. \<open>acc\<close> is the value of the run
  of digits being read, if any.
\<close>

fun collationKey :: "nat option \<Rightarrow> string \<Rightarrow> (nat \<times> nat) list" where
  "collationKey acc [] = (case acc of None \<Rightarrow> [] | Some n \<Rightarrow> [(1, n)])"
| "collationKey acc (c # cs) =
     (if isDigit c
      then collationKey (Some (10 * (case acc of None \<Rightarrow> 0 | Some n \<Rightarrow> n) + digitValue c)) cs
      else (case acc of None \<Rightarrow> [] | Some n \<Rightarrow> [(1, n)])
           @ (if isLetter c then (2, of_char c)
              else (0, length (takeWhile (\<lambda>d. d \<noteq> c) symbolOrder)))
           # collationKey None cs)"

definition numericBaseCompare :: "string \<Rightarrow> string \<Rightarrow> int" where
  "numericBaseCompare a b =
     (let ka = collationKey None (toLowerCase a); kb = collationKey None (toLowerCase b)
      in if ka < kb then -1 else if ka = kb then 0 else 1)"

definition printable :: "char \<Rightarrow> bool" where
  "printable c = (c \<in> set symbolOrder \<or> isDigit c \<or> isLetter (lowerChar c))"

definition plainName :: "string \<Rightarrow> bool" where
  "plainName s = (list_all printable s \<and> length s \<le> 254)"

definition localeCompare ::
  "Host \<Rightarrow> string \<Rightarrow> string \<Rightarrow> string option \<Rightarrow> CollatorOptions \<Rightarrow> int" where
  "localeCompare h a b locales opts =
     (let locale = (case locales of None \<Rightarrow> defaultLocale h | Some l \<Rightarrow> l)
      in if locale \<in> set englishLocales
            \<and> co_numeric opts = Some True \<and> co_sensitivity opts = Some ''base''
            \<and> plainName a \<and> plainName b
         then numericBaseCompare a b
         else collate h locale opts a b)"

text \<open>
  The comparison of two names that \<^verbatim>\<open>onEnd\<close> asks for, and the comparison function it
  passes to \<^verbatim>\<open>sort\<close>.
\<close>

abbreviation nameOrder :: "Host \<Rightarrow> string \<Rightarrow> string \<Rightarrow> int" where
  "nameOrder h x y \<equiv>
     localeCompare h x y None \<lparr>co_numeric = Some True, co_sensitivity = Some ''base''\<rparr>"

definition compareNames :: "Host \<Rightarrow> TestEntry \<Rightarrow> TestEntry \<Rightarrow> int" where
  "compareNames h a b =
     localeCompare h (name a) (name b) None \<lparr>co_numeric = Some True, co_sensitivity = Some ''base''\<rparr>"

text \<open>
  The first statements of \<^verbatim>\<open>onEnd\<close>: the sort of \<^verbatim>\<open>this.tests\<close> and the summary
  \<^verbatim>\<open>reportData\<close>. One reading of the clock stands for the two the source makes.
\<close>

definition reportData :: "Host \<Rightarrow> Reporter \<Rightarrow> ReportData" where
  "reportData h this =
     (let dur = nowMs h - runStart this;
          sortedTests = sortWith (compareNames h) (tests this)
      in \<lparr>timestamp = toISOString h (nowMs h),
          totalTests = length sortedTests,
          passed = length (filter (\<lambda>t. status t = ''passed'') sortedTests),
          failed = length (filter (\<lambda>t. status t = ''failed'' \<or> status t = ''timedOut'') sortedTests),
          skipped = length (filter (\<lambda>t. status t = ''skipped'') sortedTests),
          totalDuration = dur,
          reportTests = sortedTests,
          comments = loadExistingComments h this\<rparr>)"

section \<open>String replacement\<close>

text \<open>
  \<open>findFirst pat s\<close> splits \<open>s\<close> around the first occurrence of \<open>pat\<close>.
  \<open>getSubstitution\<close> expands the replacement patterns of \<^verbatim>\<open>String.prototype.replace\<close>
  for a match without capture groups: \<^verbatim>\<open>$$\<close> is a dollar sign, \<^verbatim>\<open>$&\<close> the matched text,
  \<^verbatim>\<open>$`\<close> the text before the match, \<^verbatim>\<open>$'\<close> the text after it; any other character,
  a dollar sign included, stands for itself.
\<close>

fun findFirst :: "string \<Rightarrow> string \<Rightarrow> (string \<times> string) option" where
  "findFirst pat [] = (if pat = [] then Some ([], []) else None)"
| "findFirst pat (c # cs) =
     (if take (length pat) (c # cs) = pat then Some ([], drop (length pat) (c # cs))
      else (case findFirst pat cs of None \<Rightarrow> None | Some (b, a) \<Rightarrow> Some (c # b, a)))"

fun getSubstitution :: "string \<Rightarrow> string \<Rightarrow> string \<Rightarrow> string \<Rightarrow> string" where
  "getSubstitution matched pre post [] = []"
| "getSubstitution matched pre post [c] = [c]"
| "getSubstitution matched pre post (c # d # rest) =
     (if c = CHR ''$'' \<and> d = CHR ''$'' then CHR ''$'' # getSubstitution matched pre post rest
      else if c = CHR ''$'' \<and> d = CHR ''&'' then matched @ getSubstitution matched pre post rest
      else if c = CHR ''$'' \<and> d = CHR 0x60 then pre @ getSubstitution matched pre post rest
      else if c = CHR ''$'' \<and> d = CHR 0x27 then post @ getSubstitution matched pre post rest
      else c # getSubstitution matched pre post (d # rest))"

text \<open>\<^verbatim>\<open>s.replace(pat, rep)\<close> with a string pattern: the first occurrence only.\<close>

definition replaceFirst :: "string \<Rightarrow> string \<Rightarrow> string \<Rightarrow> string" where
  "replaceFirst s pat rep =
     (case findFirst pat s of
        None \<Rightarrow> s
      | Some (b, a) \<Rightarrow> b @ getSubstitution pat b a rep @ a)"

text \<open>
  \<^verbatim>\<open>s.replace(/\{\{TITLE\}\}/g, rep)\<close>: the regular expression matches the literal text,
  every match from left to right is replaced; \<open>pre\<close> is the part of the subject that
  precedes the text still to scan.
\<close>

fun replaceEvery :: "string \<Rightarrow> string \<Rightarrow> string \<Rightarrow> string \<Rightarrow> string" where
  "replaceEvery pat rep pre s =
     (if length pat = 0 then s
      else (case s of
              [] \<Rightarrow> []
            | c # cs \<Rightarrow>
                if take (length pat) s = pat
                then getSubstitution pat pre (drop (length pat) s) rep
                       @ replaceEvery pat rep (pre @ pat) (drop (length pat) s)
                else c # replaceEvery pat rep (pre @ [c]) cs))"

definition replaceTitle :: "string \<Rightarrow> string \<Rightarrow> string" where
  "replaceTitle s rep = replaceEvery ''{{TITLE}}'' rep [] s"

section \<open>generateHTMLReport\<close>

text \<open>\<^verbatim>\<open>Buffer.prototype.toString('base64')\<close>: the standard alphabet, padded.\<close>

definition b64char :: "nat \<Rightarrow> char" where
  "b64char n = ''ABCDEFGHIJKLMNOPQRSTUVWXYZabcdefghijklmnopqrstuvwxyz0123456789+/'' ! n"

fun base64 :: "string \<Rightarrow> string" where
  "base64 [] = []"
| "base64 [a] =
     (let x = (of_char a :: nat)
      in [b64char (x div 4), b64char ((x mod 4) * 16), CHR ''='', CHR ''=''])"
| "base64 [a, b] =
     (let x = (of_char a :: nat); y = (of_char b :: nat)
      in [b64char (x div 4), b64char ((x mod 4) * 16 + y div 16), b64char ((y mod 16) * 4),
          CHR ''=''])"
| "base64 (a # b # c # rest) =
     (let x = (of_char a :: nat); y = (of_char b :: nat); z = (of_char c :: nat)
      in [b64char (x div 4), b64char ((x mod 4) * 16 + y div 16),
          b64char ((y mod 16) * 4 + z div 64), b64char (z mod 64)] @ base64 rest)"

definition getDefaultTemplate :: string where
  \<open>getDefaultTemplate =
     ''<!DOCTYPE html>'' @ [CHR 0x0A] @
     ''<html lang="en">'' @ [CHR 0x0A] @
     ''<head>'' @ [CHR 0x0A] @
     ''  <meta charset="UTF-8">'' @ [CHR 0x0A] @
     ''  <meta name="viewport" content="width=device-width, initial-scale=1.0">'' @ [CHR 0x0A] @
     ''  <title>{{TITLE}}</title>'' @ [CHR 0x0A] @
     ''  <script src="https://cdn.jsdelivr.net/npm/chart.js@4.4.1/dist/chart.umd.min.js"></script>'' @ [CHR 0x0A] @
     ''  <style>/* INJECT_STYLES */</style>'' @ [CHR 0x0A] @
     ''</head>'' @ [CHR 0x0A] @
     ''<body>'' @ [CHR 0x0A] @
     ''  <div id="app">Loading report...</div>'' @ [CHR 0x0A] @
     ''  <script>'' @ [CHR 0x0A] @
     ''    const REPORT_DATA = /* INJECT_DATA */;'' @ [CHR 0x0A] @
     ''    /* INJECT_SCRIPT */'' @ [CHR 0x0A] @
     ''  </script>'' @ [CHR 0x0A] @
     ''</body>'' @ [CHR 0x0A] @
     ''</html>''\<close>

text \<open>The files read: the template, the style sheet and the script, with the fallbacks.\<close>

definition loadTemplate :: "Host \<Rightarrow> (string \<times> string \<times> string) option" where
  "loadTemplate h =
     (let templatePath = path_join h (dirname h) ''../html/template.html'';
          cssPath = path_join h (dirname h) ''../html/styles.css'';
          jsPath = path_join h (dirname h) ''../html/report.js''
      in if existsSync h templatePath then
           do {
             template \<leftarrow> readFileSync h templatePath;
             css \<leftarrow> (if existsSync h cssPath then readFileSync h cssPath else Some []);
             js \<leftarrow> (if existsSync h jsPath then readFileSync h jsPath else Some []);
             Some (template, css, js)
           }
         else
           (let srcTemplatePath = path_join h (dirname h) ''../../src/html/template.html'';
                srcCssPath = path_join h (dirname h) ''../../src/html/styles.css'';
                srcJsPath = path_join h (dirname h) ''../../src/html/report.js''
            in do {
                 template \<leftarrow> (if existsSync h srcTemplatePath then readFileSync h srcTemplatePath
                              else Some getDefaultTemplate);
                 css \<leftarrow> (if existsSync h srcCssPath then readFileSync h srcCssPath else Some []);
                 js \<leftarrow> (if existsSync h srcJsPath then readFileSync h srcJsPath else Some []);
                 Some (template, css, js)
               }))"

definition mimeType :: "string \<Rightarrow> string" where
  "mimeType ext =
     (if ext = ''.png'' then ''image/png''
      else if ext = ''.jpg'' \<or> ext = ''.jpeg'' then ''image/jpeg''
      else if ext = ''.svg'' then ''image/svg+xml''
      else ''image/png'')"

definition logoHtml :: "Host \<Rightarrow> Reporter \<Rightarrow> string option" where
  \<open>logoHtml h this =
     (if opt_logo (options this) \<noteq> [] then
        (let logoPath = path_resolve h (cwd h) (opt_logo (options this)) in
         if existsSync h logoPath then
           (case readFileSync h logoPath of
              None \<Rightarrow> None
            | Some logoBuffer \<Rightarrow>
                (let logoBase64 = base64 logoBuffer;
                     ext = toLowerCase (path_extname h logoPath)
                 in Some (''<img src="data:'' @ mimeType ext @ '';base64,'' @ logoBase64
                          @ ''" alt="Logo">'')))
         else Some [])
      else Some [])\<close>

text \<open>The chain of replacements, up to the title and then with the logo.\<close>

definition injectContent :: "string \<Rightarrow> string \<Rightarrow> string \<Rightarrow> string \<Rightarrow> string \<Rightarrow> string" where
  "injectContent template css js json title =
     replaceTitle
       (replaceFirst
          (replaceFirst
             (replaceFirst template ''/* INJECT_STYLES */'' css)
             ''/* INJECT_SCRIPT */'' js)
          ''/* INJECT_DATA */'' json)
       title"

definition injectTemplate :: "string \<Rightarrow> string \<Rightarrow> string \<Rightarrow> string \<Rightarrow> string \<Rightarrow> string \<Rightarrow> string" where
  "injectTemplate template css js json title logo =
     replaceFirst (injectContent template css js json title) ''<!-- INJECT_LOGO -->'' logo"

definition renderReport :: "Host \<Rightarrow> Reporter \<Rightarrow> ReportData \<Rightarrow> string option" where
  "renderReport h this data =
     do {
       (template, css, js) \<leftarrow> loadTemplate h;
       logo \<leftarrow> logoHtml h this;
       Some (injectTemplate template css js (JSON_stringify h data) (opt_title (options this)) logo)
     }"

definition generateHTMLReport :: "Host \<Rightarrow> Reporter \<Rightarrow> ReportData \<Rightarrow> Host option" where
  "generateHTMLReport h this data =
     do {
       html \<leftarrow> renderReport h this data;
       Some (writeFileSync h (path_join h (outputDir this) (opt_outputFile (options this))) html)
     }"

text \<open>
  \<^verbatim>\<open>onEnd\<close> as a whole: the summary, the output directory, the two files. The console
  summary and the launch of a viewer are not modelled.
\<close>

definition onEnd :: "Host \<Rightarrow> Reporter \<Rightarrow> (Reporter \<times> Host) option" where
  "onEnd h this =
     (let data = reportData h this;
          this' = this\<lparr>tests := reportTests data\<rparr>;
          h1 = (if \<not> existsSync h (outputDir this) then mkdirSync h (outputDir this) else h)
      in do {
           h2 \<leftarrow> generateHTMLReport h1 this' data;
           Some (this', writeFileSync h2 (path_join h (outputDir this) ''report-data.json'')
                         (JSON_stringify_indented h data))
         })"

section \<open>Sample hosts and runs\<close>

text \<open>
  A comparison function is consistent when it is reflexive, antisymmetric and transitive
  in the sense the language requires of the argument of \<^verbatim>\<open>sort\<close>.
\<close>

definition consistentComparator :: "('a \<Rightarrow> 'a \<Rightarrow> int) \<Rightarrow> bool" where
  "consistentComparator cmp \<longleftrightarrow>
     (\<forall>a. cmp a a = 0) \<and>
     (\<forall>a b. (cmp a b < 0) = (cmp b a > 0)) \<and>
     (\<forall>a b c. cmp a b \<le> 0 \<and> cmp b c \<le> 0 \<longrightarrow> cmp a c \<le> 0)"

text \<open>
  For stating that the comparison is numeric-aware: a non-empty run of digits, and a text
  that ends in a digit.
\<close>

definition digitRun :: "string \<Rightarrow> bool" where
  "digitRun ds = (ds \<noteq> [] \<and> list_all isDigit ds)"

definition endsInDigit :: "string \<Rightarrow> bool" where
  "endsInDigit p = (p \<noteq> [] \<and> isDigit (last p))"

text \<open>A host with a few files, and the run of the end-to-end scenario.\<close>

definition sampleHost :: Host where
  "sampleHost =
     \<lparr>files = [''/work/logo.SVG'' \<mapsto> File ''<svg/>'',
               ''/work/craft-report/comments.json'' \<mapsto> File ''not-json''],
      path_join = (\<lambda>a b. a @ ''/'' @ b),
      path_resolve = (\<lambda>a b. a @ ''/'' @ b),
      path_extname = (\<lambda>p. dropWhile (\<lambda>c. c \<noteq> CHR ''.'') p),
      cwd = ''/work'',
      dirname = ''/work/dist/reporter'',
      JSON_parse = (\<lambda>s. if s = ''{}'' then Some (JObject [])
                        else if s = ''null'' then Some JNull else None),
      JSON_stringify = (\<lambda>d. ''{}''),
      JSON_stringify_indented = (\<lambda>d. ''{}''),
      defaultLocale = ''en-US'',
      collate = (\<lambda>l opts. numericBaseCompare),
      nowMs = 5000,
      toISOString = (\<lambda>t. ''2024-01-01T00:00:00.000Z'')\<rparr>"

definition sampleOptions :: RawOptions where
  "sampleOptions = \<lparr>raw_outputDir = None, raw_outputFile = None, raw_open = None,
     raw_title = None, raw_logo = Some ''logo.SVG''\<rparr>"

definition sampleTest :: "string \<Rightarrow> TestCase" where
  "sampleTest i = \<lparr>tc_id = i, tc_title = ''test '' @ i, tc_titlePath = [''spec.ts'', ''test '' @ i],
     tc_annotations = [], tc_file = ''spec.ts'', tc_line = 1\<rparr>"

definition sampleResult :: "string \<Rightarrow> int \<Rightarrow> int \<Rightarrow> TestResult" where
  "sampleResult st d n = \<lparr>r_status = st, r_duration = d,
     r_errors = (if st = ''failed'' then Some [\<lparr>message = Some ''assert false'', stack = None\<rparr>]
                 else Some []),
     r_startTime = 0, r_retry = n\<rparr>"

definition sampleCalls :: "(TestCase \<times> TestResult) list" where
  "sampleCalls =
     [(sampleTest ''1'', sampleResult ''passed'' 500 0),
      (sampleTest ''2'', sampleResult ''failed'' 200 0),
      (sampleTest ''2'', sampleResult ''passed'' 150 1),
      (sampleTest ''3'', sampleResult ''skipped'' 0 0)]"

definition sampleRun :: Reporter where
  "sampleRun = recordAll sampleHost (CraftReporter sampleHost sampleOptions) sampleCalls"

text \<open>A run with one interrupted test, and a run whose names arrive in descending order.\<close>

definition interruptedRun :: Reporter where
  "interruptedRun =
     recordAll sampleHost (CraftReporter sampleHost sampleOptions)
       [(sampleTest ''1'', sampleResult ''interrupted'' 10 0)]"

definition unorderedRun :: Reporter where
  "unorderedRun =
     recordAll sampleHost (CraftReporter sampleHost sampleOptions)
       [(sampleTest ''10'', sampleResult ''passed'' 1 0),
        (sampleTest ''2'', sampleResult ''passed'' 1 0),
        (sampleTest ''1'', sampleResult ''passed'' 1 0)]"

text \<open>The four statuses that the summary counts.\<close>

definition knownStatus :: "string \<Rightarrow> bool" where
  "knownStatus s \<longleftrightarrow> s = ''passed'' \<or> s = ''failed'' \<or> s = ''timedOut'' \<or> s = ''skipped''"

text \<open>
  For stating the annotation rules: the kinds with a field of their own, the field of a
  kind, the last annotation of a kind in a list, and a test with the title path of the
  precedence example.
\<close>

definition singleValuedKinds :: "string list" where
  "singleValuedKinds = [''epic'', ''feature'', ''story'', ''suite'', ''subsuite'', ''parentsuite'',
     ''severity'', ''owner'', ''description'']"

definition fieldOf :: "string \<Rightarrow> TestMetadata \<Rightarrow> string option" where
  "fieldOf k m =
     (if k = ''epic'' then epic m
      else if k = ''feature'' then feature m
      else if k = ''story'' then story m
      else if k = ''suite'' then suite m
      else if k = ''subsuite'' then subSuite m
      else if k = ''parentsuite'' then parentSuite m
      else if k = ''severity'' then severity m
      else if k = ''owner'' then owner m
      else if k = ''description'' then description m
      else None)"

definition lastOfKind :: "string \<Rightarrow> Annotation list \<Rightarrow> Annotation option" where
  "lastOfKind k as =
     (let bs = filter (\<lambda>a. toLowerCase (a_type a) = k) as
      in if bs = [] then None else Some (last bs))"

text \<open>The kinds the switch names, and the parameter stored under a key.\<close>

definition recognizedKinds :: "string list" where
  "recognizedKinds = singleValuedKinds @ [''tag'']"

definition parameterOf :: "string \<Rightarrow> TestMetadata \<Rightarrow> string option" where
  "parameterOf k m = (case parameters m of None \<Rightarrow> None | Some p \<Rightarrow> p k)"

definition precedenceTest :: "Annotation list \<Rightarrow> TestCase" where
  "precedenceTest as = \<lparr>tc_id = ''t1'', tc_title = ''testX'',
     tc_titlePath = [''fileA'', ''suiteB'', ''subC'', ''testX''],
     tc_annotations = as, tc_file = ''fileA'', tc_line = 3\<rparr>"

text \<open>A run whose only test was interrupted and carries an error.\<close>

definition erroredRun :: Reporter where
  "erroredRun =
     recordAll sampleHost (CraftReporter sampleHost sampleOptions)
       [(sampleTest ''1'',
         \<lparr>r_status = ''interrupted'', r_duration = 10,
          r_errors = Some [\<lparr>message = Some ''Test was interrupted.'', stack = None\<rparr>],
          r_startTime = 0, r_retry = 0\<rparr>)]"

text \<open>
  A host whose template file holds a title placeholder and a script marker and whose
  script file highlights matches with the pattern \<^verbatim>\<open>$&\<close>, and options with a dollar
  amount in the title.
\<close>

definition dollarHost :: Host where
  \<open>dollarHost =
     sampleHost\<lparr>files :=
       [''/work/dist/reporter/../html/template.html'' \<mapsto>
          File ''<title>{{TITLE}}</title><script>/* INJECT_SCRIPT */</script>'',
        ''/work/dist/reporter/../html/report.js'' \<mapsto>
          File ''s.replace(q, "<mark>$&</mark>")'']\<rparr>\<close>

definition dollarOptions :: RawOptions where
  "dollarOptions = \<lparr>raw_outputDir = None, raw_outputFile = None, raw_open = None,
     raw_title = Some ''Cost in $$'', raw_logo = None\<rparr>"

text \<open>
  A host whose comment store holds the text \<^verbatim>\<open>null\<close>, which the JSON parser accepts.
\<close>

definition nullCommentsHost :: Host where
  "nullCommentsHost =
     sampleHost\<lparr>files := [''/work/craft-report/comments.json'' \<mapsto> File ''null'']\<rparr>"

text \<open>
  A host with a logo file and a template whose head holds the title placeholder and
  whose header holds the logo marker; options with a plain title, and options whose
  title holds the text of the logo marker.
\<close>

definition captureHost :: Host where
  "captureHost =
     sampleHost\<lparr>files :=
       [''/work/dist/reporter/../html/template.html'' \<mapsto>
          File ''<title>{{TITLE}}</title><header><!-- INJECT_LOGO --></header>'',
        ''/work/logo.SVG'' \<mapsto> File ''<svg/>'']\<rparr>"

definition plainOptions :: RawOptions where
  "plainOptions = \<lparr>raw_outputDir = None, raw_outputFile = None, raw_open = None,
     raw_title = Some ''Nightly'', raw_logo = Some ''logo.SVG''\<rparr>"

definition captureOptions :: RawOptions where
  "captureOptions = \<lparr>raw_outputDir = None, raw_outputFile = None, raw_open = None,
     raw_title = Some ''Nightly <!-- INJECT_LOGO -->'', raw_logo = Some ''logo.SVG''\<rparr>"

section \<open>Retry collapse\<close>

lemma set_firstOccurrences [simp]: "set (firstOccurrences xs) = set xs"
  by (induction xs rule: firstOccurrences.induct) auto

lemma distinct_firstOccurrences [simp]: "distinct (firstOccurrences xs)"
  by (induction xs rule: firstOccurrences.induct) auto

lemma firstOccurrences_snoc:
  "firstOccurrences (xs @ [i]) =
     (if i \<in> set xs then firstOccurrences xs else firstOccurrences xs @ [i])"
  by (induction xs rule: firstOccurrences.induct) auto

lemma findIndex_ge: "- 1 \<le> findIndex P xs"
  by (induction xs) (auto simp: Let_def)

lemma findIndex_none: "(findIndex P xs = - 1) = (\<forall>x\<in>set xs. \<not> P x)"
proof (induction xs)
  case Nil
  then show ?case by simp
next
  case (Cons x xs)
  have "findIndex P xs + 1 \<noteq> - 1" using findIndex_ge [of P xs] by linarith
  with Cons show ?case by (simp add: Let_def)
qed

lemma update_found:
  "distinct js \<Longrightarrow> i \<in> set js \<Longrightarrow> (\<forall>j\<in>set js. key (g j) = j) \<Longrightarrow>
   (map g js)[nat (findIndex (\<lambda>e. key e = i) (map g js)) := v] = map (g(i := v)) js"
proof (induction js)
  case Nil
  then show ?case by simp
next
  case (Cons j js)
  show ?case
  proof (cases "j = i")
    case True
    with Cons.prems have "i \<notin> set js" by simp
    then have "map (g(i := v)) js = map g js" by (intro map_cong) auto
    with True Cons.prems show ?thesis by simp
  next
    case False
    with Cons.prems have mem: "i \<in> set js" and k: "key (g j) \<noteq> i" by auto
    let ?r = "findIndex (\<lambda>e. key e = i) (map g js)"
    from mem Cons.prems have "?r \<noteq> - 1" by (auto simp: findIndex_none)
    with findIndex_ge [of "\<lambda>e. key e = i" "map g js"] have r0: "0 \<le> ?r" by linarith
    then have "nat (?r + 1) = Suc (nat ?r)" by simp
    with False k \<open>?r \<noteq> - 1\<close> Cons show ?thesis by (simp add: Let_def)
  qed
qed

lemma testId_makeEntry [simp]: "testId (makeEntry h t r) = tc_id t"
  by (simp add: makeEntry_def)

lemma testId_lastOutcome:
  "i \<in> set (map (\<lambda>c. tc_id (fst c)) calls) \<Longrightarrow> testId (lastOutcome h calls i) = i"
proof -
  assume "i \<in> set (map (\<lambda>c. tc_id (fst c)) calls)"
  then have ne: "filter (\<lambda>c. tc_id (fst c) = i) calls \<noteq> []"
    by (auto simp: filter_empty_conv)
  from last_in_set [OF ne] show ?thesis by (simp add: lastOutcome_def Let_def)
qed

lemma lastOutcome_snoc:
  "lastOutcome h (calls @ [c]) j =
     (if j = tc_id (fst c) then makeEntry h (fst c) (snd c) else lastOutcome h calls j)"
  by (simp add: lastOutcome_def Let_def)

lemma tests_recordAll:
  "tests this = [] \<Longrightarrow>
   tests (recordAll h this calls) =
     map (lastOutcome h calls) (firstOccurrences (map (\<lambda>c. tc_id (fst c)) calls))"
proof (induction calls rule: rev_induct)
  case Nil
  then show ?case by (simp add: recordAll_def)
next
  case (snoc c calls)
  let ?ids = "map (\<lambda>c. tc_id (fst c)) calls"
  let ?i = "tc_id (fst c)"
  let ?e = "makeEntry h (fst c) (snd c)"
  let ?st = "recordAll h this calls"
  have IH: "tests ?st = map (lastOutcome h calls) (firstOccurrences ?ids)"
    using snoc by simp
  have step: "recordAll h this (calls @ [c]) = onTestEnd h ?st (fst c) (snd c)"
    by (simp add: recordAll_def)
  have keys: "\<forall>j\<in>set (firstOccurrences ?ids). testId (lastOutcome h calls j) = j"
    using testId_lastOutcome [of _ calls h] by simp
  show ?case
  proof (cases "?i \<in> set ?ids")
    case True
    then have "lastOutcome h calls ?i \<in> set (tests ?st)"
      by (simp add: IH)
    moreover have "testId (lastOutcome h calls ?i) = ?i"
      using True by (rule testId_lastOutcome)
    ultimately have "\<exists>x\<in>set (tests ?st). testId x = ?i" by blast
    then have found: "findIndex (\<lambda>t. testId t = ?i) (tests ?st) \<noteq> - 1"
      by (simp add: findIndex_none)
    have "tests (recordAll h this (calls @ [c]))
        = (tests ?st)[nat (findIndex (\<lambda>t. testId t = ?i) (tests ?st)) := ?e]"
      using found by (simp add: step onTestEnd_def Let_def)
    also have "\<dots> = map ((lastOutcome h calls)(?i := ?e)) (firstOccurrences ?ids)"
      unfolding IH using True keys by (intro update_found) simp_all
    also have "\<dots> = map (lastOutcome h (calls @ [c])) (firstOccurrences ?ids)"
      by (intro map_cong) (auto simp: lastOutcome_snoc)
    finally show ?thesis using True by (simp add: firstOccurrences_snoc)
  next
    case False
    have "\<forall>x\<in>set (tests ?st). testId x \<noteq> ?i"
    proof
      fix x assume "x \<in> set (tests ?st)"
      then obtain j where j: "j \<in> set ?ids" and x: "x = lastOutcome h calls j"
        unfolding IH by auto
      from j have "testId x = j" unfolding x by (rule testId_lastOutcome)
      with j False show "testId x \<noteq> ?i" by metis
    qed
    then have nf: "findIndex (\<lambda>t. testId t = ?i) (tests ?st) = - 1"
      by (simp add: findIndex_none)
    have "tests (recordAll h this (calls @ [c])) = tests ?st @ [?e]"
      using nf by (simp add: step onTestEnd_def Let_def)
    also have "\<dots> = map (lastOutcome h (calls @ [c])) (firstOccurrences ?ids @ [?i])"
    proof -
      have "map (lastOutcome h (calls @ [c])) (firstOccurrences ?ids)
          = map (lastOutcome h calls) (firstOccurrences ?ids)"
      proof (intro map_cong refl)
        fix j assume "j \<in> set (firstOccurrences ?ids)"
        then have "j \<in> set ?ids" unfolding set_firstOccurrences .
        with False have "j \<noteq> ?i" by metis
        then show "lastOutcome h (calls @ [c]) j = lastOutcome h calls j"
          by (simp add: lastOutcome_snoc)
      qed
      then show ?thesis by (simp add: IH lastOutcome_snoc)
    qed
    finally show ?thesis using False by (simp add: firstOccurrences_snoc)
  qed
qed


lemma firstOccurrences_append:
  "firstOccurrences (xs @ ys) =
     firstOccurrences xs @ firstOccurrences (filter (\<lambda>y. y \<notin> set xs) ys)"
proof (induction xs arbitrary: ys rule: firstOccurrences.induct)
  case 1
  then show ?case by simp
next
  case (2 x xs)
  have "filter (\<lambda>y. y \<notin> set (filter (\<lambda>y. y \<noteq> x) xs)) (filter (\<lambda>y. y \<noteq> x) ys)
      = filter (\<lambda>y. y \<notin> set (x # xs)) ys"
    by (induction ys) auto
  then have "firstOccurrences (filter (\<lambda>y. y \<noteq> x) xs @ filter (\<lambda>y. y \<noteq> x) ys)
      = firstOccurrences (filter (\<lambda>y. y \<noteq> x) xs) @ firstOccurrences (filter (\<lambda>y. y \<notin> set (x # xs)) ys)"
    using 2 [of "filter (\<lambda>y. y \<noteq> x) ys"] by simp
  then show ?case by simp
qed

lemma firstOccurrences_position:
  assumes "i \<in> set xs"
  shows "length (firstOccurrences (takeWhile (\<lambda>y. y \<noteq> i) xs)) < length (firstOccurrences xs)
       \<and> firstOccurrences xs ! length (firstOccurrences (takeWhile (\<lambda>y. y \<noteq> i) xs)) = i"
proof -
  from split_list_first [OF assms] obtain ys zs where xs: "xs = ys @ i # zs" and ys: "i \<notin> set ys"
    by blast
  have "takeWhile (\<lambda>y. y \<noteq> i) (ys @ i # zs) = ys @ takeWhile (\<lambda>y. y \<noteq> i) (i # zs)"
    using ys by (intro takeWhile_append2) auto
  then have tw: "takeWhile (\<lambda>y. y \<noteq> i) xs = ys" by (simp add: xs)
  have fo: "firstOccurrences xs = firstOccurrences ys
       @ i # firstOccurrences (filter (\<lambda>y. y \<noteq> i) (filter (\<lambda>y. y \<notin> set ys) zs))"
    using ys by (simp add: xs firstOccurrences_append)
  show ?thesis unfolding tw by (simp add: fo)
qed

lemma tests_CraftReporter [simp]: "tests (CraftReporter h opts) = []"
  by (simp add: CraftReporter_def Let_def)

text \<open>
  C1. Start from the constructor's reporter and make any sequence of \<open>onTestEnd\<close> calls.
  The collection then holds, for each identity that occurred, exactly one entry: the one
  built from the last call made for that identity. The entries stand in the order in
  which their identities first occurred; the index of an identity's entry is the length
  the collection had when the first call for that identity arrived (where that call
  appended it), and no other index holds an entry of that identity. The test identities
  of the collection are pairwise distinct. Since the sequence is arbitrary, this holds
  after every call.
\<close>

theorem retry_collapse:
  "tests (recordAll h (CraftReporter h opts) calls) =
     map (lastOutcome h calls) (firstOccurrences (map (\<lambda>c. tc_id (fst c)) calls))
   \<and> distinct (map testId (tests (recordAll h (CraftReporter h opts) calls)))
   \<and> (\<forall>c\<in>set calls.
        let i = tc_id (fst c);
            k = length (tests (recordAll h (CraftReporter h opts)
                                (takeWhile (\<lambda>d. tc_id (fst d) \<noteq> i) calls)))
        in k < length (tests (recordAll h (CraftReporter h opts) calls))
         \<and> tests (recordAll h (CraftReporter h opts) calls) ! k = lastOutcome h calls i
         \<and> (\<forall>j<length (tests (recordAll h (CraftReporter h opts) calls)).
               testId (tests (recordAll h (CraftReporter h opts) calls) ! j) = i \<longrightarrow> j = k))"
proof -
  let ?rep = "CraftReporter h opts"
  let ?ids = "map (\<lambda>c. tc_id (fst c)) calls"
  let ?ts = "tests (recordAll h ?rep calls)"
  have init: "tests ?rep = []" by simp
  have eq: "?ts = map (lastOutcome h calls) (firstOccurrences ?ids)"
    using init by (rule tests_recordAll)
  have ids: "map testId ?ts = firstOccurrences ?ids"
  proof -
    have "map testId ?ts = map (\<lambda>j. testId (lastOutcome h calls j)) (firstOccurrences ?ids)"
      by (simp add: eq comp_def)
    also have "\<dots> = map (\<lambda>j. j) (firstOccurrences ?ids)"
    proof (intro map_cong refl)
      fix j assume "j \<in> set (firstOccurrences ?ids)"
      then have "j \<in> set ?ids" unfolding set_firstOccurrences .
      then show "testId (lastOutcome h calls j) = j" by (rule testId_lastOutcome)
    qed
    finally show ?thesis by simp
  qed
  have dist: "distinct (map testId ?ts)" by (simp only: ids distinct_firstOccurrences)
  have pos: "\<forall>c\<in>set calls.
            let i = tc_id (fst c);
                k = length (tests (recordAll h ?rep (takeWhile (\<lambda>d. tc_id (fst d) \<noteq> i) calls)))
            in k < length ?ts \<and> ?ts ! k = lastOutcome h calls i
             \<and> (\<forall>j<length ?ts. testId (?ts ! j) = i \<longrightarrow> j = k)"
  proof
    fix c assume c: "c \<in> set calls"
    let ?i = "tc_id (fst c)"
    let ?pre = "takeWhile (\<lambda>d. tc_id (fst d) \<noteq> ?i) calls"
    let ?k = "length (tests (recordAll h ?rep ?pre))"
    have mem: "?i \<in> set ?ids" using c by simp
    have "map (\<lambda>c. tc_id (fst c)) ?pre = takeWhile (\<lambda>y. y \<noteq> ?i) ?ids"
      by (simp add: takeWhile_map comp_def)
    then have k: "?k = length (firstOccurrences (takeWhile (\<lambda>y. y \<noteq> ?i) ?ids))"
      using tests_recordAll [OF init, of h ?pre] by simp
    from firstOccurrences_position [OF mem]
    have lt: "?k < length (firstOccurrences ?ids)" and at: "firstOccurrences ?ids ! ?k = ?i"
      unfolding k by simp_all
    have len: "length ?ts = length (firstOccurrences ?ids)" by (simp add: eq)
    have 1: "?k < length ?ts" using lt len by simp
    have 2: "?ts ! ?k = lastOutcome h calls ?i"
      using lt at by (simp add: eq)
    have 3: "\<forall>j<length ?ts. testId (?ts ! j) = ?i \<longrightarrow> j = ?k"
    proof (intro allI impI)
      fix j assume j: "j < length ?ts" and "testId (?ts ! j) = ?i"
      then have "map testId ?ts ! j = ?i" by simp
      moreover have "map testId ?ts ! ?k = ?i" using 1 2 mem testId_lastOutcome [OF mem] by simp
      ultimately show "j = ?k" using dist j 1
        by (metis length_map nth_eq_iff_index_eq)
    qed
    from 1 2 3 show "let i = tc_id (fst c);
                k = length (tests (recordAll h ?rep (takeWhile (\<lambda>d. tc_id (fst d) \<noteq> i) calls)))
            in k < length ?ts \<and> ?ts ! k = lastOutcome h calls i
             \<and> (\<forall>j<length ?ts. testId (?ts ! j) = i \<longrightarrow> j = k)"
      by (simp add: Let_def)
  qed
  from eq dist pos show ?thesis by blast
qed

theorem retry_collapse_witness:
  "(sampleTest ''2'', sampleResult ''failed'' 200 0) \<in> set sampleCalls
   \<and> map (\<lambda>e. (testId e, status e, retries e))
         (tests (recordAll sampleHost (CraftReporter sampleHost sampleOptions) sampleCalls))
       = [(''1'', ''passed'', 0), (''2'', ''passed'', 1), (''3'', ''skipped'', 0)]
   \<and> length (tests (recordAll sampleHost (CraftReporter sampleHost sampleOptions)
                (takeWhile (\<lambda>d. tc_id (fst d) \<noteq> ''2'') sampleCalls))) = 1"
proof -
  have mem: "(sampleTest ''2'', sampleResult ''failed'' 200 0) \<in> set sampleCalls"
    by (simp add: sampleCalls_def)
  have ids: "firstOccurrences (map (\<lambda>c. tc_id (fst c)) sampleCalls) = [''1'', ''2'', ''3'']"
    by (simp add: sampleCalls_def sampleTest_def)
  have pre: "takeWhile (\<lambda>d. tc_id (fst d) \<noteq> ''2'') sampleCalls
      = [(sampleTest ''1'', sampleResult ''passed'' 500 0)]"
    by (simp add: sampleCalls_def sampleTest_def)
  note rc = retry_collapse [of sampleHost sampleOptions sampleCalls]
  from rc have eq: "tests (recordAll sampleHost (CraftReporter sampleHost sampleOptions) sampleCalls)
      = map (lastOutcome sampleHost sampleCalls) [''1'', ''2'', ''3'']"
    unfolding ids by blast
  have vals: "map (\<lambda>e. (testId e, status e, retries e))
         (map (lastOutcome sampleHost sampleCalls) [''1'', ''2'', ''3''])
       = [(''1'', ''passed'', 0), (''2'', ''passed'', 1), (''3'', ''skipped'', 0)]"
    by (simp add: lastOutcome_def sampleCalls_def sampleTest_def sampleResult_def makeEntry_def)
  have len: "length (tests (recordAll sampleHost (CraftReporter sampleHost sampleOptions)
                (takeWhile (\<lambda>d. tc_id (fst d) \<noteq> ''2'') sampleCalls))) = 1"
    using retry_collapse [of sampleHost sampleOptions "[(sampleTest ''1'', sampleResult ''passed'' 500 0)]"]
    unfolding pre by (simp add: sampleTest_def)
  from mem eq vals len show ?thesis by simp
qed

section \<open>Ordering of the summary\<close>

subsection \<open>Sorting\<close>

lemma mset_insertSorted [simp]: "mset (insertSorted cmp x ys) = add_mset x (mset ys)"
  by (induction ys) auto

lemma mset_sortWith [simp]: "mset (sortWith cmp xs) = mset xs"
  by (induction xs) (auto simp: sortWith_def)

lemma set_sortWith [simp]: "set (sortWith cmp xs) = set xs"
  by (metis mset_sortWith set_mset_mset)

lemma length_sortWith [simp]: "length (sortWith cmp xs) = length xs"
  by (metis mset_sortWith size_mset)

lemma length_filter_sortWith: "length (filter P (sortWith cmp xs)) = length (filter P xs)"
proof -
  have "mset (filter P (sortWith cmp xs)) = mset (filter P xs)"
    by (simp only: mset_filter mset_sortWith)
  then show ?thesis by (metis size_mset)
qed

lemma consistent_refl: "consistentComparator cmp \<Longrightarrow> cmp a a = 0"
  by (simp add: consistentComparator_def)

lemma consistent_flip: "consistentComparator cmp \<Longrightarrow> 0 < cmp a b \<Longrightarrow> cmp b a < 0"
  by (simp add: consistentComparator_def)

lemma consistent_flip': "consistentComparator cmp \<Longrightarrow> cmp a b < 0 \<Longrightarrow> 0 < cmp b a"
  by (simp add: consistentComparator_def)

lemma consistent_trans:
  "consistentComparator cmp \<Longrightarrow> cmp a b \<le> 0 \<Longrightarrow> cmp b c \<le> 0 \<Longrightarrow> cmp a c \<le> 0"
  unfolding consistentComparator_def by blast

lemma consistent_sym: 
  assumes "consistentComparator cmp" "cmp a b = 0" shows "cmp b a = 0"
proof -
  have "\<not> cmp b a < 0" using consistent_flip' [OF assms(1), of b a] assms(2) by auto
  moreover have "\<not> 0 < cmp b a" using consistent_flip [OF assms(1), of b a] assms(2) by auto
  ultimately show ?thesis by linarith
qed

lemma sorted_insertSorted:
  assumes c: "consistentComparator cmp"
  shows "sorted_wrt (\<lambda>a b. cmp a b \<le> 0) ys \<Longrightarrow> sorted_wrt (\<lambda>a b. cmp a b \<le> 0) (insertSorted cmp x ys)"
proof (induction ys)
  case Nil
  then show ?case by simp
next
  case (Cons y ys)
  show ?case
  proof (cases "cmp x y \<le> 0")
    case True
    have "\<forall>z\<in>set ys. cmp x z \<le> 0"
      using Cons.prems True consistent_trans [OF c, of x y] by auto
    with True Cons.prems show ?thesis by simp
  next
    case False
    then have "cmp y x \<le> 0" using consistent_flip [OF c, of x y] by simp
    moreover have "set (insertSorted cmp x ys) = insert x (set ys)"
      by (metis mset_insertSorted set_mset_mset set_mset_add_mset_insert)
    ultimately show ?thesis using False Cons by simp
  qed
qed

lemma sorted_sortWith:
  "consistentComparator cmp \<Longrightarrow> sorted_wrt (\<lambda>a b. cmp a b \<le> 0) (sortWith cmp xs)"
  by (induction xs) (simp_all add: sortWith_def sorted_insertSorted)

lemma filter_insertSorted_other:
  "\<not> P x \<Longrightarrow> filter P (insertSorted cmp x ys) = filter P ys"
  by (induction ys) auto

lemma filter_insertSorted_same:
  assumes c: "consistentComparator cmp" and k: "cmp k x = 0"
  shows "filter (\<lambda>y. cmp k y = 0) (insertSorted cmp x ys) = x # filter (\<lambda>y. cmp k y = 0) ys"
proof (induction ys)
  case Nil
  then show ?case using k by simp
next
  case (Cons y ys)
  show ?case
  proof (cases "cmp x y \<le> 0")
    case True
    then show ?thesis using k by simp
  next
    case False
    have "cmp k y \<noteq> 0"
    proof
      assume "cmp k y = 0"
      moreover have "cmp x k = 0" using consistent_sym [OF c k] .
      ultimately have "cmp x y \<le> 0" using consistent_trans [OF c, of x k y] by simp
      with False show False by simp
    qed
    with False Cons show ?thesis by simp
  qed
qed

lemma stable_sortWith:
  assumes c: "consistentComparator cmp"
  shows "filter (\<lambda>y. cmp k y = 0) (sortWith cmp xs) = filter (\<lambda>y. cmp k y = 0) xs"
proof (induction xs)
  case Nil
  then show ?case by (simp add: sortWith_def)
next
  case (Cons x xs)
  have unfold: "sortWith cmp (x # xs) = insertSorted cmp x (sortWith cmp xs)"
    by (simp add: sortWith_def)
  show ?case
  proof (cases "cmp k x = 0")
    case True
    then show ?thesis
      unfolding unfold by (simp add: filter_insertSorted_same [OF c True] Cons)
  next
    case False
    then show ?thesis
      unfolding unfold by (simp add: filter_insertSorted_other Cons)
  qed
qed

lemma onEnd_tests:
  "onEnd h this = Some (this', h') \<Longrightarrow> tests this' = reportTests (reportData h this)"
  by (auto simp: onEnd_def Let_def split: Option.bind_splits)

lemma reportTests_reportData [simp]:
  "reportTests (reportData h this) = sortWith (compareNames h) (tests this)"
  by (simp add: reportData_def Let_def)

lemma numericBaseCompare_consistent: "consistentComparator numericBaseCompare"
  unfolding consistentComparator_def numericBaseCompare_def Let_def
  by (auto simp: not_less dest: order.strict_trans)

lemma compareByName_consistent:
  "consistentComparator (\<lambda>a b. numericBaseCompare (name a) (name b))"
  using numericBaseCompare_consistent unfolding consistentComparator_def by blast

lemma insertSorted_cong:
  "(\<And>y. y \<in> set ys \<Longrightarrow> c x y = d x y) \<Longrightarrow> insertSorted c x ys = insertSorted d x ys"
  by (induction ys) auto

lemma sortWith_cong:
  "(\<And>x y. x \<in> set xs \<Longrightarrow> y \<in> set xs \<Longrightarrow> c x y = d x y) \<Longrightarrow> sortWith c xs = sortWith d xs"
proof (induction xs)
  case Nil
  then show ?case by (simp add: sortWith_def)
next
  case (Cons x xs)
  have IH: "sortWith c xs = sortWith d xs" using Cons by simp
  have "insertSorted c x (sortWith d xs) = insertSorted d x (sortWith d xs)"
    using Cons.prems by (intro insertSorted_cong) simp
  then show ?case using IH by (simp add: sortWith_def)
qed

lemma compareNames_plain:
  "defaultLocale h \<in> set englishLocales \<Longrightarrow> plainName (name a) \<Longrightarrow> plainName (name b) \<Longrightarrow>
   compareNames h a b = numericBaseCompare (name a) (name b)"
  by (simp add: compareNames_def localeCompare_def)

lemma reportTests_plain:
  assumes "defaultLocale h \<in> set englishLocales"
    and "\<forall>t\<in>set (tests this). plainName (name t)"
  shows "reportTests (reportData h this)
       = sortWith (\<lambda>a b. numericBaseCompare (name a) (name b)) (tests this)"
  unfolding reportTests_reportData using assms
  by (intro sortWith_cong compareNames_plain) auto

lemma map_insertSorted:
  "map f (insertSorted (\<lambda>a b. c (f a) (f b)) x ys) = insertSorted c (f x) (map f ys)"
  by (induction ys) auto

lemma map_sortWith:
  "map f (sortWith (\<lambda>a b. c (f a) (f b)) xs) = sortWith c (map f xs)"
  by (induction xs) (simp_all add: sortWith_def map_insertSorted)

lemma sortWith_descending3:
  assumes c: "consistentComparator cmp" and lt12: "cmp x y < 0" and lt23: "cmp y z < 0"
  shows "sortWith cmp [z, y, x] = [x, y, z]"
proof -
  have g21: "0 < cmp y x" using c lt12 by (rule consistent_flip')
  have g32: "0 < cmp z y" using c lt23 by (rule consistent_flip')
  have g31: "0 < cmp z x"
  proof (rule ccontr)
    assume "\<not> 0 < cmp z x"
    then have "cmp z x \<le> 0" by simp
    moreover from lt12 have "cmp x y \<le> 0" by simp
    ultimately have "cmp z y \<le> 0" by (rule consistent_trans [OF c])
    with g32 show False by simp
  qed
  from g21 g32 g31 show ?thesis by (simp add: sortWith_def)
qed

lemma toLowerCase_simps [simp]:
  "toLowerCase [] = []" "toLowerCase (c # cs) = lowerChar c # toLowerCase cs"
  by (simp_all add: toLowerCase_def)

lemmas collation_eval = numericBaseCompare_def isDigit_def isLetter_def lowerChar_def
  upperCaseUnits_def lowerCaseUnits_def symbolOrder_def digitValue_def

lemma example_compare:
  "numericBaseCompare ''test 1'' ''test 2'' < 0" "numericBaseCompare ''test 2'' ''test 10'' < 0"
  by (simp_all add: collation_eval)

lemma example_plain: "plainName ''test 1''" "plainName ''test 2''" "plainName ''test 10''"
  by (simp_all add: plainName_def printable_def collation_eval)

lemma example_order:
  assumes names: "map name ts = [''test 10'', ''test 2'', ''test 1'']"
  shows "map name (sortWith (\<lambda>a b. numericBaseCompare (name a) (name b)) ts)
       = [''test 1'', ''test 2'', ''test 10'']"
proof -
  have "map name (sortWith (\<lambda>a b. numericBaseCompare (name a) (name b)) ts)
      = sortWith numericBaseCompare (map name ts)"
    by (rule map_sortWith)
  also have "\<dots> = [''test 1'', ''test 2'', ''test 10'']"
    unfolding names using numericBaseCompare_consistent example_compare
    by (rule sortWith_descending3)
  finally show ?thesis .
qed

lemma lowerChar_range: "lowerChar c = c \<or> lowerChar c \<in> set lowerCaseUnits"
proof (cases "map_of (zip upperCaseUnits lowerCaseUnits) c")
  case None
  then show ?thesis by (simp add: lowerChar_def)
next
  case (Some l)
  then have "(c, l) \<in> set (zip upperCaseUnits lowerCaseUnits)" by (rule map_of_SomeD)
  then have "l \<in> set lowerCaseUnits" by (rule set_zip_rightD)
  with Some show ?thesis by (simp add: lowerChar_def)
qed

lemma digit_not_upper: "isDigit c \<Longrightarrow> c \<notin> set upperCaseUnits"
  by (auto simp: isDigit_def upperCaseUnits_def)

lemma digit_not_lower: "isDigit c \<Longrightarrow> c \<notin> set lowerCaseUnits"
  by (auto simp: isDigit_def lowerCaseUnits_def)

lemma lowerChar_other: "c \<notin> set upperCaseUnits \<Longrightarrow> lowerChar c = c"
proof -
  assume "c \<notin> set upperCaseUnits"
  then have "c \<notin> fst ` set (zip upperCaseUnits lowerCaseUnits)"
    by (auto dest: set_zip_leftD)
  then have "map_of (zip upperCaseUnits lowerCaseUnits) c = None"
    by (simp add: map_of_eq_None_iff)
  then show ?thesis by (simp add: lowerChar_def)
qed

lemma lowerChar_digit: "isDigit c \<Longrightarrow> lowerChar c = c"
  by (rule lowerChar_other) (rule digit_not_upper)

lemma isDigit_lowerChar: "isDigit (lowerChar c) = isDigit c"
proof
  assume d: "isDigit (lowerChar c)"
  from lowerChar_range [of c] show "isDigit c"
  proof
    assume "lowerChar c = c"
    with d show ?thesis by simp
  next
    assume "lowerChar c \<in> set lowerCaseUnits"
    with digit_not_lower [OF d] show ?thesis by simp
  qed
next
  assume "isDigit c"
  then show "isDigit (lowerChar c)" by (simp add: lowerChar_digit)
qed

lemma toLowerCase_digits: "list_all isDigit ds \<Longrightarrow> toLowerCase ds = ds"
  by (induction ds) (simp_all add: lowerChar_digit)

lemma collationKey_digits:
  "list_all isDigit ds \<Longrightarrow> acc \<noteq> None \<or> ds \<noteq> [] \<Longrightarrow>
   collationKey acc ds = [(1, digitsValue (case acc of None \<Rightarrow> 0 | Some n \<Rightarrow> n) ds)]"
proof (induction ds arbitrary: acc)
  case Nil
  then show ?case by (auto simp: digitsValue_def)
next
  case (Cons c cs)
  from Cons.prems have c: "isDigit c" and cs: "list_all isDigit cs" by simp_all
  let ?acc = "Some (10 * (case acc of None \<Rightarrow> 0 | Some n \<Rightarrow> n) + digitValue c)"
  have "collationKey ?acc cs = [(1, digitsValue (case ?acc of None \<Rightarrow> 0 | Some n \<Rightarrow> n) cs)]"
    using cs by (intro Cons.IH) simp_all
  then show ?case using c by (simp add: digitsValue_def)
qed

lemma collationKey_append:
  "q \<noteq> [] \<Longrightarrow> \<not> isDigit (last q) \<Longrightarrow>
   collationKey acc (q @ s) = collationKey acc q @ collationKey None s"
proof (induction q arbitrary: acc)
  case Nil
  then show ?case by simp
next
  case (Cons c cs)
  show ?case
  proof (cases "cs = []")
    case True
    with Cons.prems have "\<not> isDigit c" by simp
    with True show ?thesis by simp
  next
    case False
    with Cons.prems have "\<not> isDigit (last cs)" by simp
    from Cons.IH [OF False this] show ?thesis by simp
  qed
qed

lemma collationKey_numeric:
  assumes "\<not> endsInDigit p" and "digitRun ds"
  shows "collationKey None (toLowerCase (p @ ds))
       = (if p = [] then [] else collationKey None (toLowerCase p)) @ [(1, digitsValue 0 ds)]"
proof -
  from assms(2) have ne: "ds \<noteq> []" and all: "list_all isDigit ds" by (simp_all add: digitRun_def)
  have lower: "toLowerCase (p @ ds) = toLowerCase p @ ds"
    by (simp add: toLowerCase_def toLowerCase_digits [OF all, unfolded toLowerCase_def])
  have key: "collationKey None ds = [(1, digitsValue 0 ds)]"
    using collationKey_digits [OF all, of None] ne by simp
  show ?thesis
  proof (cases "p = []")
    case True
    then show ?thesis by (simp add: toLowerCase_digits [OF all] key)
  next
    case False
    with assms(1) have "\<not> isDigit (last p)" by (simp add: endsInDigit_def)
    then have "\<not> isDigit (last (toLowerCase p))"
      using False by (simp add: toLowerCase_def last_map isDigit_lowerChar)
    moreover have "toLowerCase p \<noteq> []" using False by (simp add: toLowerCase_def)
    ultimately have "collationKey None (toLowerCase p @ ds)
        = collationKey None (toLowerCase p) @ collationKey None ds"
      by (intro collationKey_append)
    with False show ?thesis by (simp add: lower key)
  qed
qed

lemma append_less_iff: "(xs @ ys < xs @ zs) = (ys < (zs :: ('a :: linorder) list))"
  by (induction xs) simp_all

lemma numericBaseCompare_less: 
  "(numericBaseCompare a b < 0) = (collationKey None (toLowerCase a) < collationKey None (toLowerCase b))"
  by (simp add: numericBaseCompare_def Let_def)

lemma numericBaseCompare_eq:
  "(numericBaseCompare a b = 0) = (collationKey None (toLowerCase a) = collationKey None (toLowerCase b))"
  by (auto simp: numericBaseCompare_def Let_def)

lemma numeric_aware:
  assumes "\<not> endsInDigit p" and "digitRun ds" and "digitRun es"
  shows "(numericBaseCompare (p @ ds) (p @ es) < 0) = (digitsValue 0 ds < digitsValue 0 es)"
  unfolding numericBaseCompare_less collationKey_numeric [OF assms(1,2)]
    collationKey_numeric [OF assms(1,3)] append_less_iff
  by simp

lemma case_insensitive: "toLowerCase a = toLowerCase b \<Longrightarrow> numericBaseCompare a b = 0"
  by (simp add: numericBaseCompare_eq)

lemma nameOrder_plain:
  "defaultLocale h \<in> set englishLocales \<Longrightarrow> plainName x \<Longrightarrow> plainName y \<Longrightarrow>
   nameOrder h x y = numericBaseCompare x y"
  by (simp add: localeCompare_def)

lemma consistent_compareNames:
  "consistentComparator (nameOrder h) \<Longrightarrow> consistentComparator (compareNames h)"
  unfolding consistentComparator_def compareNames_def by blast

lemma entry_named: "\<exists>e :: TestEntry. name e = k"
  by (metis TestEntry.select_convs(2))

lemma sorted_plain:
  assumes en: "defaultLocale h \<in> set englishLocales"
    and plain: "\<forall>t\<in>set (tests this). plainName (name t)"
  shows "sorted_wrt (\<lambda>a b. nameOrder h (name a) (name b) \<le> 0) (reportTests (reportData h this))"
proof -
  let ?R = "sortWith (\<lambda>a b. numericBaseCompare (name a) (name b)) (tests this)"
  have "sorted_wrt (\<lambda>a b. numericBaseCompare (name a) (name b) \<le> 0) ?R"
    using compareByName_consistent by (rule sorted_sortWith)
  then have "sorted_wrt (\<lambda>a b. nameOrder h (name a) (name b) \<le> 0) ?R"
  proof (rule sorted_wrt_mono_rel [rotated])
    fix a b assume "a \<in> set ?R" "b \<in> set ?R" "numericBaseCompare (name a) (name b) \<le> 0"
    then show "nameOrder h (name a) (name b) \<le> 0"
      using plain by (simp add: nameOrder_plain [OF en])
  qed
  then show ?thesis unfolding reportTests_plain [OF en plain] .
qed

lemma stable_plain:
  assumes en: "defaultLocale h \<in> set englishLocales"
    and plain: "\<forall>t\<in>set (tests this). plainName (name t)"
    and k: "plainName k"
  shows "filter (\<lambda>t. nameOrder h k (name t) = 0) (reportTests (reportData h this))
       = filter (\<lambda>t. nameOrder h k (name t) = 0) (tests this)"
proof -
  let ?R = "sortWith (\<lambda>a b. numericBaseCompare (name a) (name b)) (tests this)"
  obtain e :: TestEntry where e: "name e = k" using entry_named by blast
  have "filter (\<lambda>t. numericBaseCompare (name e) (name t) = 0) ?R
      = filter (\<lambda>t. numericBaseCompare (name e) (name t) = 0) (tests this)"
    using compareByName_consistent by (rule stable_sortWith)
  moreover have "filter (\<lambda>t. nameOrder h k (name t) = 0) ?R
      = filter (\<lambda>t. numericBaseCompare (name e) (name t) = 0) ?R"
    using plain k by (intro filter_cong) (simp_all add: nameOrder_plain [OF en] e)
  moreover have "filter (\<lambda>t. nameOrder h k (name t) = 0) (tests this)
      = filter (\<lambda>t. numericBaseCompare (name e) (name t) = 0) (tests this)"
    using plain k by (intro filter_cong) (simp_all add: nameOrder_plain [OF en] e)
  ultimately show ?thesis unfolding reportTests_plain [OF en plain] by simp
qed

lemma example_plain_tests:
  assumes "map name ts = [''test 10'', ''test 2'', ''test 1'']"
  shows "\<forall>t\<in>set ts. plainName (name t)"
proof -
  have "list_all plainName (map name ts)"
    unfolding assms using example_plain by simp
  then show ?thesis by (simp add: list_all_iff)
qed

lemma example_report:
  assumes en: "defaultLocale h \<in> set englishLocales"
    and names: "map name (tests this) = [''test 10'', ''test 2'', ''test 1'']"
  shows "map name (reportTests (reportData h this)) = [''test 1'', ''test 2'', ''test 10'']"
  unfolding reportTests_plain [OF en example_plain_tests [OF names]]
  using names by (rule example_order)


lemma tests_unorderedRun:
  "map name (tests unorderedRun) = [''test 10'', ''test 2'', ''test 1'']"
  unfolding unorderedRun_def
  by (simp add: tests_recordAll lastOutcome_def sampleTest_def makeEntry_def)

lemma nameOrder_sampleHost: "nameOrder sampleHost = numericBaseCompare"
  by (intro ext) (simp add: localeCompare_def sampleHost_def Let_def)


section \<open>Counts of the summary\<close>

text \<open>
  C2, as amended. In the summary, \<open>totalTests\<close> is the number of collected records,
  \<open>passed\<close>, \<open>failed\<close> and \<open>skipped\<close> count the records with status passed, with status
  failed or timedOut, and with status skipped. Their sum and the number of records with
  any other status add up to \<open>totalTests\<close>; so the sum equals \<open>totalTests\<close> exactly when
  every record has one of the four statuses.
\<close>

theorem count_consistency:
  "totalTests (reportData h this) = length (tests this)
   \<and> passed (reportData h this) = length (filter (\<lambda>t. status t = ''passed'') (tests this))
   \<and> failed (reportData h this)
       = length (filter (\<lambda>t. status t = ''failed'' \<or> status t = ''timedOut'') (tests this))
   \<and> skipped (reportData h this) = length (filter (\<lambda>t. status t = ''skipped'') (tests this))
   \<and> passed (reportData h this) + failed (reportData h this) + skipped (reportData h this)
       + length (filter (\<lambda>t. \<not> knownStatus (status t)) (tests this))
       = totalTests (reportData h this)
   \<and> ((passed (reportData h this) + failed (reportData h this) + skipped (reportData h this)
        = totalTests (reportData h this))
       = (\<forall>t\<in>set (tests this). knownStatus (status t)))"
proof -
  let ?ts = "tests this"
  have p: "passed (reportData h this) = length (filter (\<lambda>t. status t = ''passed'') ?ts)"
    by (simp add: reportData_def Let_def length_filter_sortWith)
  have f: "failed (reportData h this)
       = length (filter (\<lambda>t. status t = ''failed'' \<or> status t = ''timedOut'') ?ts)"
    by (simp add: reportData_def Let_def length_filter_sortWith)
  have s: "skipped (reportData h this) = length (filter (\<lambda>t. status t = ''skipped'') ?ts)"
    by (simp add: reportData_def Let_def length_filter_sortWith)
  have t: "totalTests (reportData h this) = length ?ts"
    by (simp add: reportData_def Let_def)
  have sum: "length (filter (\<lambda>t. status t = ''passed'') xs)
       + length (filter (\<lambda>t. status t = ''failed'' \<or> status t = ''timedOut'') xs)
       + length (filter (\<lambda>t. status t = ''skipped'') xs)
       + length (filter (\<lambda>t. \<not> knownStatus (status t)) xs) = length xs" for xs :: "TestEntry list"
    by (induction xs) (auto simp: knownStatus_def)
  have total: "passed (reportData h this) + failed (reportData h this) + skipped (reportData h this)
       + length (filter (\<lambda>t. \<not> knownStatus (status t)) ?ts) = totalTests (reportData h this)"
    using p f s t sum [of ?ts] by simp
  have "(length (filter (\<lambda>t. \<not> knownStatus (status t)) ?ts) = 0)
       = (\<forall>t\<in>set ?ts. knownStatus (status t))"
    by (simp add: filter_empty_conv)
  with total have iff: "(passed (reportData h this) + failed (reportData h this)
        + skipped (reportData h this) = totalTests (reportData h this))
       = (\<forall>t\<in>set ?ts. knownStatus (status t))"
    by (metis add.right_neutral add_left_cancel)
  from p f s t total iff show ?thesis by blast
qed

lemma tests_sampleRun:
  "map status (tests sampleRun) = [''passed'', ''passed'', ''skipped'']"
  unfolding sampleRun_def
  by (simp add: tests_recordAll lastOutcome_def sampleCalls_def sampleTest_def sampleResult_def
      makeEntry_def)

text \<open>The end-to-end scenario: three tests, one retried; 3 in total, 2 passed, 0 failed, 1 skipped.\<close>

theorem count_consistency_witness:
  "map status (tests sampleRun) = [''passed'', ''passed'', ''skipped'']
   \<and> totalTests (reportData sampleHost sampleRun) = 3
   \<and> passed (reportData sampleHost sampleRun) = 2
   \<and> failed (reportData sampleHost sampleRun) = 0
   \<and> skipped (reportData sampleHost sampleRun) = 1
   \<and> passed (reportData sampleHost sampleRun) + failed (reportData sampleHost sampleRun)
       + skipped (reportData sampleHost sampleRun) = totalTests (reportData sampleHost sampleRun)"
proof -
  have "\<forall>s\<in>set (map status (tests sampleRun)). knownStatus s"
    unfolding tests_sampleRun by (simp add: knownStatus_def)
  then have all: "\<forall>t\<in>set (tests sampleRun). knownStatus (status t)" by simp
  note cc = count_consistency [of sampleHost sampleRun]
  have total: "passed (reportData sampleHost sampleRun) + failed (reportData sampleHost sampleRun)
       + skipped (reportData sampleHost sampleRun) = totalTests (reportData sampleHost sampleRun)"
    using cc [THEN conjunct2, THEN conjunct2, THEN conjunct2, THEN conjunct2, THEN conjunct2] all
    by (rule iffD2)
  have "length (map status (tests sampleRun)) = 3" unfolding tests_sampleRun by simp
  then have len: "length (tests sampleRun) = 3" by simp
  have "length (filter (\<lambda>s. s = ''passed'') (map status (tests sampleRun))) = 2"
    unfolding tests_sampleRun by simp
  then have np: "length (filter (\<lambda>t. status t = ''passed'') (tests sampleRun)) = 2"
    by (simp add: filter_map comp_def)
  have "length (filter (\<lambda>s. s = ''failed'' \<or> s = ''timedOut'') (map status (tests sampleRun))) = 0"
    unfolding tests_sampleRun by simp
  then have nf: "length (filter (\<lambda>t. status t = ''failed'' \<or> status t = ''timedOut'')
                    (tests sampleRun)) = 0"
    by (simp add: filter_map comp_def)
  have "length (filter (\<lambda>s. s = ''skipped'') (map status (tests sampleRun))) = 1"
    unfolding tests_sampleRun by simp
  then have ns: "length (filter (\<lambda>t. status t = ''skipped'') (tests sampleRun)) = 1"
    by (simp add: filter_map comp_def)
  have n: "totalTests (reportData sampleHost sampleRun) = 3"
    using cc [THEN conjunct1] len by (rule trans)
  have p: "passed (reportData sampleHost sampleRun) = 2"
    using cc [THEN conjunct2, THEN conjunct1] np by (rule trans)
  have f: "failed (reportData sampleHost sampleRun) = 0"
    using cc [THEN conjunct2, THEN conjunct2, THEN conjunct1] nf by (rule trans)
  have s: "skipped (reportData sampleHost sampleRun) = 1"
    using cc [THEN conjunct2, THEN conjunct2, THEN conjunct2, THEN conjunct1] ns by (rule trans)
  from tests_sampleRun n p f s total show ?thesis by (intro conjI)
qed

lemma tests_interruptedRun: "map status (tests interruptedRun) = [''interrupted'']"
  unfolding interruptedRun_def
  by (simp add: tests_recordAll lastOutcome_def sampleTest_def sampleResult_def makeEntry_def)

text \<open>
  C2 as stated fails: a run whose only test was interrupted has \<open>totalTests = 1\<close> and
  \<open>passed = failed = skipped = 0\<close>.
\<close>

theorem count_consistency_counterexample:
  "passed (reportData sampleHost interruptedRun) + failed (reportData sampleHost interruptedRun)
     + skipped (reportData sampleHost interruptedRun)
   \<noteq> totalTests (reportData sampleHost interruptedRun)"
proof -
  have l: "length (tests interruptedRun) = 1"
    using tests_interruptedRun by (metis length_map length_Cons list.size(3) One_nat_def)
  then obtain e where e: "tests interruptedRun = [e]" 
    by (cases "tests interruptedRun") auto
  with tests_interruptedRun have st: "status e = ''interrupted''" by simp
  show ?thesis
    by (simp add: reportData_def Let_def length_filter_sortWith e st)
qed

section \<open>Metadata\<close>

lemma singleValuedKinds_cases:
  "k \<in> set singleValuedKinds \<Longrightarrow>
   k = ''epic'' \<or> k = ''feature'' \<or> k = ''story'' \<or> k = ''suite'' \<or> k = ''subsuite''
   \<or> k = ''parentsuite'' \<or> k = ''severity'' \<or> k = ''owner'' \<or> k = ''description''"
  by (simp add: singleValuedKinds_def)

lemma fieldOf_applyAnnotation:
  assumes "k \<in> set singleValuedKinds"
  shows "fieldOf k (applyAnnotation m a) =
           (if toLowerCase (a_type a) = k then Some (orEmpty (a_description a)) else fieldOf k m)"
  using singleValuedKinds_cases [OF assms]
  by (elim disjE) (simp_all add: applyAnnotation_def fieldOf_def Let_def)

lemma lastOfKind_snoc:
  "lastOfKind k (as @ [a]) = (if toLowerCase (a_type a) = k then Some a else lastOfKind k as)"
  by (simp add: lastOfKind_def Let_def)

lemma fieldOf_foldl:
  assumes "k \<in> set singleValuedKinds"
  shows "fieldOf k (foldl applyAnnotation m as) =
           (case lastOfKind k as of None \<Rightarrow> fieldOf k m
            | Some a \<Rightarrow> Some (orEmpty (a_description a)))"
proof (induction as rule: rev_induct)
  case Nil
  then show ?case by (simp add: lastOfKind_def)
next
  case (snoc a as)
  then show ?case
    by (simp add: fieldOf_applyAnnotation [OF assms] lastOfKind_snoc)
qed

lemma fieldOf_emptyMetadata: "fieldOf k emptyMetadata = None"
  by (simp add: fieldOf_def emptyMetadata_def)

lemma fieldOf_annotationLoop:
  "k \<in> set singleValuedKinds \<Longrightarrow>
   fieldOf k (annotationLoop as) =
     (case lastOfKind k as of None \<Rightarrow> None | Some a \<Rightarrow> Some (orEmpty (a_description a)))"
  by (simp add: annotationLoop_def fieldOf_foldl fieldOf_emptyMetadata split: option.splits)

lemma backfill_parentSuite:
  "parentSuite (backfill tp m) =
     (if length tp > 1 \<and> \<not> truthy (parentSuite m) then Some (tp ! 0) else parentSuite m)"
  by (simp add: backfill_def Let_def)

lemma backfill_suite:
  "suite (backfill tp m) =
     (if length tp > 2 \<and> \<not> truthy (suite m) then Some (tp ! 1) else suite m)"
  by (simp add: backfill_def Let_def)

lemma backfill_subSuite:
  "subSuite (backfill tp m) =
     (if length tp > 3 \<and> \<not> truthy (subSuite m) then Some (tp ! 2) else subSuite m)"
  by (simp add: backfill_def Let_def)

lemma backfill_others:
  "epic (backfill tp m) = epic m" "feature (backfill tp m) = feature m"
  "story (backfill tp m) = story m" "severity (backfill tp m) = severity m"
  "owner (backfill tp m) = owner m" "tags (backfill tp m) = tags m"
  "description (backfill tp m) = description m" "parameters (backfill tp m) = parameters m"
  by (simp_all add: backfill_def Let_def)

lemma fieldOf_backfill:
  "fieldOf k (backfill tp m) =
     (if k = ''parentsuite'' \<and> length tp > 1 \<and> \<not> truthy (parentSuite m) then Some (tp ! 0)
      else if k = ''suite'' \<and> length tp > 2 \<and> \<not> truthy (suite m) then Some (tp ! 1)
      else if k = ''subsuite'' \<and> length tp > 3 \<and> \<not> truthy (subSuite m) then Some (tp ! 2)
      else fieldOf k m)"
  by (simp add: fieldOf_def backfill_parentSuite backfill_suite backfill_subSuite backfill_others)

lemma fieldOf_hierarchy:
  "fieldOf ''parentsuite'' m = parentSuite m" "fieldOf ''suite'' m = suite m"
  "fieldOf ''subsuite'' m = subSuite m"
  by (simp_all add: fieldOf_def)

text \<open>
  C5, as amended. The back-fill runs only when the title path has more than one segment.
  \<open>parentSuite\<close> becomes the first segment when the annotations left it unset or empty;
  \<open>suite\<close> becomes the second segment when it is unset or empty and the path has more
  than two segments; \<open>subSuite\<close> becomes the third segment when it is unset or empty and
  the path has more than three segments; otherwise each keeps the value the annotations
  gave it. A field whose last annotation carries a non-empty description keeps that
  description. With the annotation epic "E1" and the title path fileA, suiteB, subC,
  testX the result has epic "E1", parentSuite "fileA", suite "suiteB", subSuite "subC";
  with a further annotation parentsuite "Custom" it has parentSuite "Custom".
\<close>

theorem hierarchy_backfill:
  "parentSuite (extractMetadata test) =
     (if length (tc_titlePath test) > 1 \<and> \<not> truthy (parentSuite (annotationLoop (tc_annotations test)))
      then Some (tc_titlePath test ! 0) else parentSuite (annotationLoop (tc_annotations test)))
   \<and> suite (extractMetadata test) =
     (if length (tc_titlePath test) > 2 \<and> \<not> truthy (suite (annotationLoop (tc_annotations test)))
      then Some (tc_titlePath test ! 1) else suite (annotationLoop (tc_annotations test)))
   \<and> subSuite (extractMetadata test) =
     (if length (tc_titlePath test) > 3 \<and> \<not> truthy (subSuite (annotationLoop (tc_annotations test)))
      then Some (tc_titlePath test ! 2) else subSuite (annotationLoop (tc_annotations test)))
   \<and> (\<forall>k\<in>set singleValuedKinds. \<forall>a v.
         lastOfKind k (tc_annotations test) = Some a \<and> a_description a = Some v \<and> v \<noteq> []
         \<longrightarrow> fieldOf k (extractMetadata test) = Some v)
   \<and> epic (extractMetadata (precedenceTest [\<lparr>a_type = ''epic'', a_description = Some ''E1''\<rparr>]))
       = Some ''E1''
   \<and> parentSuite (extractMetadata (precedenceTest [\<lparr>a_type = ''epic'', a_description = Some ''E1''\<rparr>]))
       = Some ''fileA''
   \<and> suite (extractMetadata (precedenceTest [\<lparr>a_type = ''epic'', a_description = Some ''E1''\<rparr>]))
       = Some ''suiteB''
   \<and> subSuite (extractMetadata (precedenceTest [\<lparr>a_type = ''epic'', a_description = Some ''E1''\<rparr>]))
       = Some ''subC''
   \<and> parentSuite (extractMetadata (precedenceTest
         [\<lparr>a_type = ''epic'', a_description = Some ''E1''\<rparr>,
          \<lparr>a_type = ''parentsuite'', a_description = Some ''Custom''\<rparr>]))
       = Some ''Custom''"
proof -
  let ?m = "annotationLoop (tc_annotations test)"
  have 1: "parentSuite (extractMetadata test) =
     (if length (tc_titlePath test) > 1 \<and> \<not> truthy (parentSuite ?m)
      then Some (tc_titlePath test ! 0) else parentSuite ?m)"
    by (simp only: extractMetadata_def backfill_parentSuite)
  have 2: "suite (extractMetadata test) =
     (if length (tc_titlePath test) > 2 \<and> \<not> truthy (suite ?m)
      then Some (tc_titlePath test ! 1) else suite ?m)"
    by (simp only: extractMetadata_def backfill_suite)
  have 3: "subSuite (extractMetadata test) =
     (if length (tc_titlePath test) > 3 \<and> \<not> truthy (subSuite ?m)
      then Some (tc_titlePath test ! 2) else subSuite ?m)"
    by (simp only: extractMetadata_def backfill_subSuite)
  have 4: "\<forall>k\<in>set singleValuedKinds. \<forall>a v.
         lastOfKind k (tc_annotations test) = Some a \<and> a_description a = Some v \<and> v \<noteq> []
         \<longrightarrow> fieldOf k (extractMetadata test) = Some v"
  proof (intro ballI allI impI)
    fix k a v
    assume k: "k \<in> set singleValuedKinds"
      and a: "lastOfKind k (tc_annotations test) = Some a \<and> a_description a = Some v \<and> v \<noteq> []"
    then have f: "fieldOf k ?m = Some v"
      by (simp add: fieldOf_annotationLoop orEmpty_def orDefault_def)
    have t: "truthy (fieldOf k ?m)" using a by (simp add: f truthy_def)
    have "k = ''parentsuite'' \<longrightarrow> truthy (parentSuite ?m)"
      using t fieldOf_hierarchy(1) [of ?m] by (intro impI) simp
    moreover have "k = ''suite'' \<longrightarrow> truthy (suite ?m)"
      using t fieldOf_hierarchy(2) [of ?m] by (intro impI) simp
    moreover have "k = ''subsuite'' \<longrightarrow> truthy (subSuite ?m)"
      using t fieldOf_hierarchy(3) [of ?m] by (intro impI) simp
    ultimately show "fieldOf k (extractMetadata test) = Some v"
      unfolding extractMetadata_def fieldOf_backfill using f by auto
  qed
  note ev = extractMetadata_def precedenceTest_def annotationLoop_def applyAnnotation_def
      backfill_def emptyMetadata_def lowerChar_def upperCaseUnits_def lowerCaseUnits_def
      orEmpty_def orDefault_def truthy_def Let_def
  have 5: "epic (extractMetadata (precedenceTest [\<lparr>a_type = ''epic'', a_description = Some ''E1''\<rparr>]))
       = Some ''E1''" by (simp add: ev)
  have 6: "parentSuite (extractMetadata (precedenceTest [\<lparr>a_type = ''epic'', a_description = Some ''E1''\<rparr>]))
       = Some ''fileA''" by (simp add: ev)
  have 7: "suite (extractMetadata (precedenceTest [\<lparr>a_type = ''epic'', a_description = Some ''E1''\<rparr>]))
       = Some ''suiteB''" by (simp add: ev)
  have 8: "subSuite (extractMetadata (precedenceTest [\<lparr>a_type = ''epic'', a_description = Some ''E1''\<rparr>]))
       = Some ''subC''" by (simp add: ev)
  have 9: "parentSuite (extractMetadata (precedenceTest
         [\<lparr>a_type = ''epic'', a_description = Some ''E1''\<rparr>,
          \<lparr>a_type = ''parentsuite'', a_description = Some ''Custom''\<rparr>]))
       = Some ''Custom''" by (simp add: ev)
  from 1 2 3 4 5 6 7 8 9 show ?thesis by (intro conjI)
qed

theorem hierarchy_backfill_witness:
  "''parentsuite'' \<in> set singleValuedKinds
   \<and> lastOfKind ''parentsuite'' (tc_annotations (precedenceTest
         [\<lparr>a_type = ''epic'', a_description = Some ''E1''\<rparr>,
          \<lparr>a_type = ''ParentSuite'', a_description = Some ''Custom''\<rparr>]))
       = Some \<lparr>a_type = ''ParentSuite'', a_description = Some ''Custom''\<rparr>
   \<and> a_description \<lparr>a_type = ''ParentSuite'', a_description = Some ''Custom''\<rparr> = Some ''Custom''
   \<and> ''Custom'' \<noteq> []
   \<and> fieldOf ''parentsuite'' (extractMetadata (precedenceTest
         [\<lparr>a_type = ''epic'', a_description = Some ''E1''\<rparr>,
          \<lparr>a_type = ''ParentSuite'', a_description = Some ''Custom''\<rparr>])) = Some ''Custom''"
proof -
  let ?a = "\<lparr>a_type = ''ParentSuite'', a_description = Some ''Custom''\<rparr>"
  let ?t = "precedenceTest [\<lparr>a_type = ''epic'', a_description = Some ''E1''\<rparr>, ?a]"
  have k: "''parentsuite'' \<in> set singleValuedKinds" by (simp add: singleValuedKinds_def)
  have l: "lastOfKind ''parentsuite'' (tc_annotations ?t) = Some ?a"
    by (simp add: lastOfKind_def precedenceTest_def lowerChar_def upperCaseUnits_def
        lowerCaseUnits_def Let_def)
  have d: "a_description ?a = Some ''Custom''" by simp
  have n: "''Custom'' \<noteq> []" by simp
  from hierarchy_backfill [of ?t] have
    "\<forall>k\<in>set singleValuedKinds. \<forall>a v.
         lastOfKind k (tc_annotations ?t) = Some a \<and> a_description a = Some v \<and> v \<noteq> []
         \<longrightarrow> fieldOf k (extractMetadata ?t) = Some v"
    by (elim conjE)
  with k l d n have "fieldOf ''parentsuite'' (extractMetadata ?t) = Some ''Custom''" by blast
  with k l d n show ?thesis by (intro conjI)
qed

text \<open>
  C5 as stated fails: an annotation that sets \<open>parentSuite\<close> to the empty string is
  overwritten by the first segment of the title path.
\<close>

theorem hierarchy_backfill_counterexample:
  "parentSuite (annotationLoop [\<lparr>a_type = ''parentsuite'', a_description = Some ''''\<rparr>]) = Some ''''
   \<and> parentSuite (extractMetadata (precedenceTest [\<lparr>a_type = ''parentsuite'', a_description = Some ''''\<rparr>]))
       = Some ''fileA''"
  by (simp add: extractMetadata_def precedenceTest_def annotationLoop_def applyAnnotation_def
      backfill_def emptyMetadata_def lowerChar_def upperCaseUnits_def lowerCaseUnits_def
      orEmpty_def orDefault_def truthy_def Let_def)

text \<open>
  C10. Take an annotation whose lower-cased kind is one of the nine single-valued kinds
  and whose description is absent or empty. Processing it sets the field of that kind to
  the empty string, whatever the field held. When no later annotation has the same kind,
  the field is the empty string after the loop, and the back-fill treats it as unset:
  \<open>parentSuite\<close>, \<open>suite\<close> and \<open>subSuite\<close> are replaced by their title-path segment when
  the path is long enough; in every other case the field stays the empty string.
\<close>

theorem empty_description_annotation:
  assumes "k \<in> set singleValuedKinds"
    and "toLowerCase (a_type a) = k"
    and "a_description a = None \<or> a_description a = Some []"
  shows "fieldOf k (applyAnnotation m a) = Some []
       \<and> (\<forall>test before after.
             tc_annotations test = before @ a # after
               \<and> (\<forall>b\<in>set after. toLowerCase (a_type b) \<noteq> k)
             \<longrightarrow> fieldOf k (annotationLoop (tc_annotations test)) = Some []
               \<and> fieldOf k (extractMetadata test) =
                   (if k = ''parentsuite'' \<and> length (tc_titlePath test) > 1
                      then Some (tc_titlePath test ! 0)
                    else if k = ''suite'' \<and> length (tc_titlePath test) > 2
                      then Some (tc_titlePath test ! 1)
                    else if k = ''subsuite'' \<and> length (tc_titlePath test) > 3
                      then Some (tc_titlePath test ! 2)
                    else Some []))"
proof -
  have e: "orEmpty (a_description a) = []"
    using assms(3) by (auto simp: orEmpty_def orDefault_def)
  have 1: "fieldOf k (applyAnnotation m a) = Some []"
    by (simp add: fieldOf_applyAnnotation [OF assms(1)] assms(2) e)
  have 2: "fieldOf k (annotationLoop (tc_annotations test)) = Some []
         \<and> fieldOf k (extractMetadata test) =
                   (if k = ''parentsuite'' \<and> length (tc_titlePath test) > 1
                      then Some (tc_titlePath test ! 0)
                    else if k = ''suite'' \<and> length (tc_titlePath test) > 2
                      then Some (tc_titlePath test ! 1)
                    else if k = ''subsuite'' \<and> length (tc_titlePath test) > 3
                      then Some (tc_titlePath test ! 2)
                    else Some [])"
    if split: "tc_annotations test = before @ a # after"
      and rest: "\<forall>b\<in>set after. toLowerCase (a_type b) \<noteq> k"
    for test before after
  proof -
    let ?m = "annotationLoop (tc_annotations test)"
    have "filter (\<lambda>b. toLowerCase (a_type b) = k) after = []"
      using rest by (simp add: filter_empty_conv)
    then have "lastOfKind k (tc_annotations test) = Some a"
      by (simp add: lastOfKind_def Let_def split assms(2))
    then have f: "fieldOf k ?m = Some []"
      by (simp add: fieldOf_annotationLoop [OF assms(1)] e)
    then have nt: "\<not> truthy (fieldOf k ?m)" by (simp add: truthy_def)
    have "k = ''parentsuite'' \<longrightarrow> \<not> truthy (parentSuite ?m)"
      using nt fieldOf_hierarchy(1) [of ?m] by (intro impI) simp
    moreover have "k = ''suite'' \<longrightarrow> \<not> truthy (suite ?m)"
      using nt fieldOf_hierarchy(2) [of ?m] by (intro impI) simp
    moreover have "k = ''subsuite'' \<longrightarrow> \<not> truthy (subSuite ?m)"
      using nt fieldOf_hierarchy(3) [of ?m] by (intro impI) simp
    ultimately have "fieldOf k (extractMetadata test) =
                   (if k = ''parentsuite'' \<and> length (tc_titlePath test) > 1
                      then Some (tc_titlePath test ! 0)
                    else if k = ''suite'' \<and> length (tc_titlePath test) > 2
                      then Some (tc_titlePath test ! 1)
                    else if k = ''subsuite'' \<and> length (tc_titlePath test) > 3
                      then Some (tc_titlePath test ! 2)
                    else Some [])"
      unfolding extractMetadata_def fieldOf_backfill using f by auto
    with f show ?thesis by (intro conjI)
  qed
  from 1 2 show ?thesis by blast
qed

theorem empty_description_annotation_witness:
  "''suite'' \<in> set singleValuedKinds
   \<and> toLowerCase (a_type \<lparr>a_type = ''Suite'', a_description = None\<rparr>) = ''suite''
   \<and> a_description \<lparr>a_type = ''Suite'', a_description = None\<rparr> = None
   \<and> suite (applyAnnotation emptyMetadata \<lparr>a_type = ''Suite'', a_description = None\<rparr>) = Some []
   \<and> suite (annotationLoop [\<lparr>a_type = ''Suite'', a_description = None\<rparr>]) = Some []
   \<and> suite (extractMetadata (precedenceTest [\<lparr>a_type = ''Suite'', a_description = None\<rparr>]))
       = Some ''suiteB''"
proof -
  let ?a = "\<lparr>a_type = ''Suite'', a_description = None\<rparr>"
  let ?t = "precedenceTest [?a]"
  have k: "''suite'' \<in> set singleValuedKinds" by (simp add: singleValuedKinds_def)
  have l: "toLowerCase (a_type ?a) = ''suite''"
    by (simp add: lowerChar_def upperCaseUnits_def lowerCaseUnits_def)
  have d: "a_description ?a = None \<or> a_description ?a = Some []" by simp
  note w = empty_description_annotation [OF k l d, of emptyMetadata]
  have s: "tc_annotations ?t = [] @ ?a # [] \<and> (\<forall>b\<in>set []. toLowerCase (a_type b) \<noteq> ''suite'')"
    by (simp add: precedenceTest_def)
  from w have 1: "fieldOf ''suite'' (applyAnnotation emptyMetadata ?a) = Some []" by (rule conjunct1)
  from w s have 2: "fieldOf ''suite'' (annotationLoop (tc_annotations ?t)) = Some []
     \<and> fieldOf ''suite'' (extractMetadata ?t) =
          (if ''suite'' = ''parentsuite'' \<and> length (tc_titlePath ?t) > 1
             then Some (tc_titlePath ?t ! 0)
           else if ''suite'' = ''suite'' \<and> length (tc_titlePath ?t) > 2
             then Some (tc_titlePath ?t ! 1)
           else if ''suite'' = ''subsuite'' \<and> length (tc_titlePath ?t) > 3
             then Some (tc_titlePath ?t ! 2)
           else Some [])"
    by blast
  have tp: "tc_titlePath ?t = [''fileA'', ''suiteB'', ''subC'', ''testX'']"
    and an: "tc_annotations ?t = [?a]"
    by (simp_all add: precedenceTest_def)
  from 1 have a1: "suite (applyAnnotation emptyMetadata ?a) = Some []"
    by (simp only: fieldOf_hierarchy)
  from 2 have a2: "suite (annotationLoop [?a]) = Some []"
    by (simp only: fieldOf_hierarchy an)
  from 2 have a3: "suite (extractMetadata ?t) = Some ''suiteB''"
    by (simp add: fieldOf_hierarchy tp)
  from k l a1 a2 a3 show ?thesis by simp
qed

text \<open>
  The rest of the dispatch: a tag annotation appends its description, in the order met
  and with repetitions; under a key that the switch does not name, the parameters hold
  the last non-empty description given for it, and nothing when there is none.
\<close>

lemma tags_applyAnnotation:
  "tags (applyAnnotation m a) =
     (if toLowerCase (a_type a) = ''tag''
      then Some ((case tags m of None \<Rightarrow> [] | Some ts \<Rightarrow> ts) @ [orEmpty (a_description a)])
      else tags m)"
  by (simp add: applyAnnotation_def Let_def)

lemma tags_foldl:
  "tags (foldl applyAnnotation m as) =
     (let new = map (\<lambda>a. orEmpty (a_description a))
                  (filter (\<lambda>a. toLowerCase (a_type a) = ''tag'') as)
      in if new = [] then tags m else Some ((case tags m of None \<Rightarrow> [] | Some ts \<Rightarrow> ts) @ new))"
proof (induction as rule: rev_induct)
  case Nil
  then show ?case by simp
next
  case (snoc a as)
  then show ?case by (simp add: tags_applyAnnotation Let_def)
qed

lemma tags_annotationLoop:
  "tags (annotationLoop as) =
     (let new = map (\<lambda>a. orEmpty (a_description a))
                  (filter (\<lambda>a. toLowerCase (a_type a) = ''tag'') as)
      in if new = [] then None else Some new)"
  by (simp add: annotationLoop_def tags_foldl emptyMetadata_def Let_def)

lemma recognizedKinds_cases:
  "k \<notin> set recognizedKinds \<Longrightarrow>
   k \<noteq> ''epic'' \<and> k \<noteq> ''feature'' \<and> k \<noteq> ''story'' \<and> k \<noteq> ''suite'' \<and> k \<noteq> ''subsuite''
   \<and> k \<noteq> ''parentsuite'' \<and> k \<noteq> ''severity'' \<and> k \<noteq> ''owner'' \<and> k \<noteq> ''description''
   \<and> k \<noteq> ''tag''"
  by (simp add: recognizedKinds_def singleValuedKinds_def)

lemma parameterOf_applyAnnotation:
  assumes "k \<notin> set recognizedKinds" and "k \<noteq> ''__proto__''"
  shows "parameterOf k (applyAnnotation m a) =
           (if toLowerCase (a_type a) = k \<and> orEmpty (a_description a) \<noteq> []
            then Some (orEmpty (a_description a)) else parameterOf k m)"
  using recognizedKinds_cases [OF assms(1)] assms(2)
  by (simp add: applyAnnotation_def parameterOf_def setProperty_def Let_def split: option.splits)

lemma parameterOf_foldl:
  assumes "k \<notin> set recognizedKinds" and "k \<noteq> ''__proto__''"
  shows "parameterOf k (foldl applyAnnotation m as) =
     (let vs = filter (\<lambda>v. v \<noteq> [])
                 (map (\<lambda>a. orEmpty (a_description a))
                    (filter (\<lambda>a. toLowerCase (a_type a) = k) as))
      in if vs = [] then parameterOf k m else Some (last vs))"
proof (induction as rule: rev_induct)
  case Nil
  then show ?case by simp
next
  case (snoc a as)
  then show ?case by (simp add: parameterOf_applyAnnotation [OF assms] Let_def)
qed

lemma parameterOf_backfill: "parameterOf k (backfill tp m) = parameterOf k m"
  by (simp add: parameterOf_def backfill_others)

lemma parameterOf_emptyMetadata: "parameterOf k emptyMetadata = None"
  by (simp add: parameterOf_def emptyMetadata_def)

lemma parameterOf_extractMetadata:
  assumes "k \<notin> set recognizedKinds" and "k \<noteq> ''__proto__''"
  shows "parameterOf k (extractMetadata test) =
     (let vs = filter (\<lambda>v. v \<noteq> [])
                 (map (\<lambda>a. orEmpty (a_description a))
                    (filter (\<lambda>a. toLowerCase (a_type a) = k) (tc_annotations test)))
      in if vs = [] then None else Some (last vs))"
  by (simp add: extractMetadata_def parameterOf_backfill annotationLoop_def
      parameterOf_foldl [OF assms] parameterOf_emptyMetadata Let_def)

lemma parameterOf_proto: "parameterOf ''__proto__'' (extractMetadata test) = None"
proof -
  have step: "parameterOf ''__proto__'' (applyAnnotation m a) = parameterOf ''__proto__'' m" for m a
    by (simp add: applyAnnotation_def parameterOf_def setProperty_def Let_def split: option.splits)
  have "parameterOf ''__proto__'' (foldl applyAnnotation m as) = parameterOf ''__proto__'' m" for m as
    by (induction as rule: rev_induct) (simp_all add: step)
  then show ?thesis
    by (simp add: extractMetadata_def parameterOf_backfill annotationLoop_def
        parameterOf_emptyMetadata)
qed

text \<open>
  C4 fails on the kind \<^verbatim>\<open>__proto__\<close>: the annotation has a non-empty description and
  an unrecognized kind, and nothing is stored under its name; \<open>parameters\<close> is left an
  empty object. Another unrecognized kind is stored under its lower-cased name.
\<close>

theorem proto_annotation_not_stored:
  "parameters (extractMetadata (precedenceTest [\<lparr>a_type = ''__proto__'', a_description = Some ''x''\<rparr>]))
     = Some Map.empty
   \<and> parameters (extractMetadata (precedenceTest [\<lparr>a_type = ''Browser'', a_description = Some ''x''\<rparr>]))
     = Some [''browser'' \<mapsto> ''x'']"
  by (simp add: extractMetadata_def precedenceTest_def annotationLoop_def applyAnnotation_def
      backfill_def emptyMetadata_def lowerChar_def upperCaseUnits_def lowerCaseUnits_def
      orEmpty_def orDefault_def truthy_def Let_def
      setProperty_def)

lemma recorded_entry_origin:
  assumes "e \<in> set (tests (recordAll h (CraftReporter h opts) calls))"
  shows "\<exists>c\<in>set calls. e = makeEntry h (fst c) (snd c)"
proof -
  have "tests (recordAll h (CraftReporter h opts) calls) =
     map (lastOutcome h calls) (firstOccurrences (map (\<lambda>c. tc_id (fst c)) calls))"
    by (rule tests_recordAll) simp
  with assms have "e \<in> lastOutcome h calls ` set (firstOccurrences (map (\<lambda>c. tc_id (fst c)) calls))"
    by (simp only: set_map)
  then obtain i where i0: "i \<in> set (firstOccurrences (map (\<lambda>c. tc_id (fst c)) calls))"
    and e: "e = lastOutcome h calls i"
    by (rule imageE)
  from i0 have i: "i \<in> set (map (\<lambda>c. tc_id (fst c)) calls)"
    unfolding set_firstOccurrences .
  from i have ne: "filter (\<lambda>c. tc_id (fst c) = i) calls \<noteq> []"
    by (auto simp: filter_empty_conv)
  have "last (filter (\<lambda>c. tc_id (fst c) = i) calls) \<in> set (filter (\<lambda>c. tc_id (fst c) = i) calls)"
    using ne by (rule last_in_set)
  then have "last (filter (\<lambda>c. tc_id (fst c) = i) calls) \<in> set calls" by simp
  then show ?thesis unfolding e lastOutcome_def Let_def by blast
qed

lemma formatErrors_None: "(formatErrors es = None) = (es = None \<or> es = Some [])"
  by (simp add: formatErrors_def split: option.splits)

text \<open>
  C7, as amended. The error trace of an entry is \<open>formatErrors\<close> of the result's errors,
  present exactly when the result carries at least one error, whatever the status. Every
  record of the collection is built from one of the calls, with that call's status and
  with an error trace exactly when that call's result carried an error.
\<close>

theorem error_trace_presence:
  "errorTrace (makeEntry h test result) = formatErrors (r_errors result)
   \<and> ((errorTrace (makeEntry h test result) = None)
        = (r_errors result = None \<or> r_errors result = Some []))
   \<and> (\<forall>e\<in>set (tests (recordAll h (CraftReporter h opts) calls)).
         \<exists>c\<in>set calls. status e = r_status (snd c)
           \<and> ((errorTrace e = None) = (r_errors (snd c) = None \<or> r_errors (snd c) = Some [])))"
proof -
  have 1: "errorTrace (makeEntry h test result) = formatErrors (r_errors result)"
    by (simp add: makeEntry_def)
  have 2: "(errorTrace (makeEntry h test result) = None)
        = (r_errors result = None \<or> r_errors result = Some [])"
    by (simp add: makeEntry_def formatErrors_None)
  have 3: "\<forall>e\<in>set (tests (recordAll h (CraftReporter h opts) calls)).
         \<exists>c\<in>set calls. status e = r_status (snd c)
           \<and> ((errorTrace e = None) = (r_errors (snd c) = None \<or> r_errors (snd c) = Some []))"
  proof
    fix e assume "e \<in> set (tests (recordAll h (CraftReporter h opts) calls))"
    then obtain c where c: "c \<in> set calls" and e: "e = makeEntry h (fst c) (snd c)"
      using recorded_entry_origin by blast
    have s: "status e = r_status (snd c)" by (simp add: e makeEntry_def)
    have t: "(errorTrace e = None) = (r_errors (snd c) = None \<or> r_errors (snd c) = Some [])"
      by (simp add: e makeEntry_def formatErrors_None)
    show "\<exists>c\<in>set calls. status e = r_status (snd c)
           \<and> ((errorTrace e = None) = (r_errors (snd c) = None \<or> r_errors (snd c) = Some []))"
      using c s t by (intro bexI [of _ c] conjI)
  qed
  from 1 2 3 show ?thesis by (intro conjI)
qed

lemma tests_erroredRun:
  "map (\<lambda>e. (status e, errorTrace e)) (tests erroredRun)
     = [(''interrupted'', Some ''Test was interrupted.'')]"
  unfolding erroredRun_def
  by (simp add: tests_recordAll lastOutcome_def sampleTest_def makeEntry_def formatErrors_def
      errorText_def orEmpty_def orDefault_def Let_def)

text \<open>
  C7 as stated fails: an interrupted test that carries an error is recorded with status
  interrupted and with an error trace.
\<close>

theorem error_trace_presence_counterexample:
  "map (\<lambda>e. (status e, errorTrace e)) (tests erroredRun)
     = [(''interrupted'', Some ''Test was interrupted.'')]"
  by (rule tests_erroredRun)

theorem error_trace_presence_witness:
  "\<exists>e. e \<in> set (tests erroredRun) \<and> status e = ''interrupted'' \<and> errorTrace e \<noteq> None"
proof -
  let ?r = "\<lparr>r_status = ''interrupted'', r_duration = 10,
          r_errors = Some [\<lparr>message = Some ''Test was interrupted.'', stack = None\<rparr>],
          r_startTime = 0, r_retry = 0\<rparr>"
  let ?calls = "[(sampleTest ''1'', ?r)]"
  obtain e where e: "e \<in> set (tests erroredRun)"
    using tests_erroredRun by (cases "tests erroredRun") auto
  note w = error_trace_presence [of sampleHost "sampleTest ''1''" ?r sampleOptions ?calls]
  then have "\<forall>e\<in>set (tests (recordAll sampleHost (CraftReporter sampleHost sampleOptions) ?calls)).
         \<exists>c\<in>set ?calls. status e = r_status (snd c)
           \<and> ((errorTrace e = None) = (r_errors (snd c) = None \<or> r_errors (snd c) = Some []))"
    by (elim conjE)
  then have "\<forall>e\<in>set (tests erroredRun). status e = ''interrupted'' \<and> errorTrace e \<noteq> None"
    unfolding erroredRun_def by simp
  with e show ?thesis by blast
qed

section \<open>Report synthesis\<close>

text \<open>
  C8 fails where a supplied content holds a replacement pattern. The template file holds
  one title placeholder and one script marker; the script file holds \<^verbatim>\<open>$&\<close> and the
  configured title holds \<^verbatim>\<open>$$\<close>. Whatever the summary and its serialization, the script
  marker is replaced by a text in which the marker itself stands where \<^verbatim>\<open>$&\<close> was, and
  the title appears with a single dollar sign: neither is the supplied content.
\<close>

theorem replacement_patterns_expand:
  \<open>renderReport (dollarHost\<lparr>JSON_stringify := ser\<rparr>) (CraftReporter dollarHost dollarOptions) d =
     Some ''<title>Cost in $</title><script>s.replace(q, "<mark>/* INJECT_SCRIPT */</mark>")</script>''\<close>
proof -
  let ?h = "dollarHost\<lparr>JSON_stringify := ser\<rparr>"
  have lt: \<open>loadTemplate ?h =
      Some (''<title>{{TITLE}}</title><script>/* INJECT_SCRIPT */</script>'', [],
            ''s.replace(q, "<mark>$&</mark>")'')\<close>
    by (simp add: loadTemplate_def dollarHost_def sampleHost_def existsSync_def readFileSync_def Let_def)
  have lg: "logoHtml ?h (CraftReporter dollarHost dollarOptions) = Some []"
    by (simp add: logoHtml_def CraftReporter_def dollarOptions_def orDefault_def Let_def)
  have ti: "opt_title (options (CraftReporter dollarHost dollarOptions)) = ''Cost in $$''"
    by (simp add: CraftReporter_def dollarOptions_def orDefault_def Let_def)
  have inj: \<open>injectTemplate ''<title>{{TITLE}}</title><script>/* INJECT_SCRIPT */</script>''
      [] ''s.replace(q, "<mark>$&</mark>")'' json ''Cost in $$'' [] =
      ''<title>Cost in $</title><script>s.replace(q, "<mark>/* INJECT_SCRIPT */</mark>")</script>''\<close>
    for json
    by (simp add: injectTemplate_def injectContent_def replaceFirst_def replaceTitle_def)
  show ?thesis
    by (simp only: renderReport_def lt lg ti inj bind.bind_lunit prod.case)
qed

lemma getSubstitution_plain:
  "CHR ''$'' \<notin> set rep \<Longrightarrow> getSubstitution m b a rep = rep"
  by (induction m b a rep rule: getSubstitution.induct) auto

lemma findFirst_split: "findFirst pat s = Some (b, a) \<Longrightarrow> s = b @ pat @ a"
proof (induction s arbitrary: b)
  case Nil
  then show ?case by (simp split: if_splits)
next
  case (Cons c cs)
  show ?case
  proof (cases "take (length pat) (c # cs) = pat")
    case True
    with Cons.prems have "b = []" and "a = drop (length pat) (c # cs)" by simp_all
    with True show ?thesis by (metis append_Nil append_take_drop_id)
  next
    case False
    with Cons.prems obtain b' where f: "findFirst pat cs = Some (b', a)" and b: "b = c # b'"
      by (auto split: option.splits)
    from Cons.IH [OF f] b show ?thesis by simp
  qed
qed

lemma replaceFirst_plain:
  "CHR ''$'' \<notin> set rep \<Longrightarrow>
   replaceFirst s pat rep = (case findFirst pat s of None \<Rightarrow> s | Some (b, a) \<Rightarrow> b @ rep @ a)"
  by (simp add: replaceFirst_def getSubstitution_plain split: option.splits)

lemma b64char_no_dollar: "n < 64 \<Longrightarrow> CHR ''$'' \<noteq> b64char n"
proof -
  assume n: "n < 64"
  let ?abc = "''ABCDEFGHIJKLMNOPQRSTUVWXYZabcdefghijklmnopqrstuvwxyz0123456789+/''"
  have "CHR ''$'' \<notin> set ?abc" by simp
  moreover have "length ?abc = 64" by simp
  ultimately show ?thesis using n unfolding b64char_def by (metis nth_mem)
qed

lemma base64_no_dollar: "CHR ''$'' \<notin> set (base64 bs)"
proof (induction bs rule: base64.induct)
  case 1
  then show ?case by simp
next
  case (2 a)
  have "(of_char a :: nat) < 256" by simp
  then have "(of_char a :: nat) div 4 < 64" "((of_char a :: nat) mod 4) * 16 < 64" by arith+
  then show ?case by (simp add: Let_def b64char_no_dollar)
next
  case (3 a b)
  have "(of_char a :: nat) < 256" "(of_char b :: nat) < 256" by simp_all
  then have "(of_char a :: nat) div 4 < 64"
    "((of_char a :: nat) mod 4) * 16 + (of_char b :: nat) div 16 < 64"
    "((of_char b :: nat) mod 16) * 4 < 64" by arith+
  then show ?case by (simp add: Let_def b64char_no_dollar)
next
  case (4 a b c rest)
  have "(of_char a :: nat) < 256" "(of_char b :: nat) < 256" "(of_char c :: nat) < 256" by simp_all
  then have "(of_char a :: nat) div 4 < 64"
    "((of_char a :: nat) mod 4) * 16 + (of_char b :: nat) div 16 < 64"
    "((of_char b :: nat) mod 16) * 4 + (of_char c :: nat) div 64 < 64"
    "(of_char c :: nat) mod 64 < 64" by arith+
  with 4 show ?case by (simp add: Let_def b64char_no_dollar)
qed

lemma mimeType_no_dollar: "CHR ''$'' \<notin> set (mimeType ext)"
  by (simp add: mimeType_def)

lemma logoHtml_no_dollar: "logoHtml h this = Some logo \<Longrightarrow> CHR ''$'' \<notin> set logo"
  by (auto simp: logoHtml_def Let_def base64_no_dollar mimeType_no_dollar
      split: if_splits option.splits)

lemma renderReport_Some:
  "renderReport h this data = Some html \<Longrightarrow>
   \<exists>template css js logo.
     loadTemplate h = Some (template, css, js) \<and> logoHtml h this = Some logo
     \<and> html = injectTemplate template css js (JSON_stringify h data) (opt_title (options this)) logo"
  by (auto simp: renderReport_def split: Option.bind_splits)

text \<open>
  The logo text. The MIME type is image/png for .png, image/jpeg for .jpg and .jpeg,
  image/svg+xml for .svg and image/png for any other extension, taken from the
  lower-cased extension of the logo path. The logo text is empty when no logo is
  configured or the logo path does not exist; when the logo is configured and its file
  can be read, it is the image element whose source is the data URL with that MIME type
  and the base64 encoding of the file's bytes. It holds no replacement pattern, so the
  last replacement of the chain puts exactly this text in place of the first occurrence
  of the marker text in the document built so far, and leaves a document without the
  marker text unchanged. When the template files and the logo can be read, the report
  file is written with the result of the chain.
\<close>

lemma mimeType_table:
  "mimeType ''.png'' = ''image/png''" "mimeType ''.jpg'' = ''image/jpeg''"
  "mimeType ''.jpeg'' = ''image/jpeg''" "mimeType ''.svg'' = ''image/svg+xml''"
  "ext \<noteq> ''.png'' \<Longrightarrow> ext \<noteq> ''.jpg'' \<Longrightarrow> ext \<noteq> ''.jpeg'' \<Longrightarrow> ext \<noteq> ''.svg''
     \<Longrightarrow> mimeType ext = ''image/png''"
  by (simp_all add: mimeType_def)

lemma logoHtml_absent:
  "opt_logo (options this) = [] \<or> \<not> existsSync h (path_resolve h (cwd h) (opt_logo (options this)))
   \<Longrightarrow> logoHtml h this = Some []"
  by (auto simp: logoHtml_def Let_def)

lemma logoHtml_present:
  \<open>opt_logo (options this) \<noteq> [] \<Longrightarrow>
   files h (path_resolve h (cwd h) (opt_logo (options this))) = Some (File bytes) \<Longrightarrow>
   logoHtml h this =
     Some (''<img src="data:''
           @ mimeType (toLowerCase (path_extname h (path_resolve h (cwd h) (opt_logo (options this)))))
           @ '';base64,'' @ base64 bytes @ ''" alt="Logo">'')\<close>
  by (simp add: logoHtml_def Let_def existsSync_def readFileSync_def)

lemma injectTemplate_logo:
  assumes "logoHtml h this = Some logo"
  shows "case findFirst ''<!-- INJECT_LOGO -->'' (injectContent template css js json title) of
           None \<Rightarrow> injectTemplate template css js json title logo
                     = injectContent template css js json title
         | Some (b, a) \<Rightarrow>
             injectContent template css js json title = b @ ''<!-- INJECT_LOGO -->'' @ a
             \<and> injectTemplate template css js json title logo = b @ logo @ a"
proof (cases "findFirst ''<!-- INJECT_LOGO -->'' (injectContent template css js json title)")
  case None
  then show ?thesis by (simp add: injectTemplate_def replaceFirst_def)
next
  case (Some ba)
  from assms have nd: "CHR ''$'' \<notin> set logo" by (rule logoHtml_no_dollar)
  obtain b a where ba: "ba = (b, a)" by (cases ba)
  from Some ba have f: "findFirst ''<!-- INJECT_LOGO -->'' (injectContent template css js json title)
      = Some (b, a)" by simp
  from findFirst_split [OF f] have s: "injectContent template css js json title
      = b @ ''<!-- INJECT_LOGO -->'' @ a" .
  have "injectTemplate template css js json title logo = b @ logo @ a"
    unfolding injectTemplate_def replaceFirst_plain [OF nd] f by simp
  with s show ?thesis unfolding f by simp
qed

lemma generateHTMLReport_writes:
  "loadTemplate h = Some (template, css, js) \<Longrightarrow> logoHtml h this = Some logo \<Longrightarrow>
   generateHTMLReport h this data =
     Some (writeFileSync h (path_join h (outputDir this) (opt_outputFile (options this)))
            (injectTemplate template css js (JSON_stringify h data) (opt_title (options this)) logo))"
  by (simp add: generateHTMLReport_def renderReport_def)

text \<open>
  C9 fails where a content injected earlier holds the text of the logo marker. The
  replacement of the logo marker is the last of the chain and acts on the first
  occurrence of the marker text in the document built so far. The template holds the
  title placeholder in its head and the logo marker in its header, and the logo is
  configured and its file exists. With a plain title the report holds the image in the
  header. With a title that holds the text of the marker, the image stands inside the
  title element and the marker of the header is still there: the logo marker of the
  template is replaced neither by the image nor by the empty string.
\<close>

theorem logo_marker_captured:
  \<open>generateHTMLReport (captureHost\<lparr>JSON_stringify := ser\<rparr>) (CraftReporter captureHost plainOptions) d
     = Some (writeFileSync (captureHost\<lparr>JSON_stringify := ser\<rparr>) ''/work/craft-report/report.html''
         ''<title>Nightly</title><header><img src="data:image/svg+xml;base64,PHN2Zy8+" alt="Logo"></header>'')
   \<and> generateHTMLReport (captureHost\<lparr>JSON_stringify := ser\<rparr>) (CraftReporter captureHost captureOptions) d
     = Some (writeFileSync (captureHost\<lparr>JSON_stringify := ser\<rparr>) ''/work/craft-report/report.html''
         ''<title>Nightly <img src="data:image/svg+xml;base64,PHN2Zy8+" alt="Logo"></title><header><!-- INJECT_LOGO --></header>'')\<close>
proof -
  let ?h = "captureHost\<lparr>JSON_stringify := ser\<rparr>"
  let ?img = \<open>''<img src="data:image/svg+xml;base64,PHN2Zy8+" alt="Logo">''\<close>
  let ?t = "''<title>{{TITLE}}</title><header><!-- INJECT_LOGO --></header>''"
  let ?p = "CraftReporter captureHost plainOptions"
  let ?c = "CraftReporter captureHost captureOptions"
  have lt: "loadTemplate ?h = Some (?t, [], [])"
    by (simp add: loadTemplate_def captureHost_def sampleHost_def existsSync_def readFileSync_def Let_def)
  have b64: "base64 ''<svg/>'' = ''PHN2Zy8+''" by (simp add: b64char_def)
  have ext: "toLowerCase ''.SVG'' = ''.svg''"
    by (simp add: lowerChar_def upperCaseUnits_def lowerCaseUnits_def)
  have lo: "opt_logo (options ?p) = ''logo.SVG''" "opt_logo (options ?c) = ''logo.SVG''"
    by (simp_all add: CraftReporter_def plainOptions_def captureOptions_def orDefault_def Let_def)
  have lp: "path_resolve ?h (cwd ?h) ''logo.SVG'' = ''/work/logo.SVG''"
    by (simp add: captureHost_def sampleHost_def)
  have fl: "files ?h ''/work/logo.SVG'' = Some (File ''<svg/>'')"
    by (simp add: captureHost_def)
  have pe: "path_extname ?h ''/work/logo.SVG'' = ''.SVG''"
    by (simp add: captureHost_def sampleHost_def)
  have mt: "mimeType ''.svg'' = ''image/svg+xml''" by (simp add: mimeType_def)
  have lg: "logoHtml ?h this = Some ?img" if "opt_logo (options this) = ''logo.SVG''" for this
  proof -
    have "opt_logo (options this) \<noteq> []" using that by simp
    moreover have "files ?h (path_resolve ?h (cwd ?h) (opt_logo (options this))) = Some (File ''<svg/>'')"
      unfolding that lp by (rule fl)
    ultimately have \<open>logoHtml ?h this =
      Some (''<img src="data:''
           @ mimeType (toLowerCase (path_extname ?h (path_resolve ?h (cwd ?h) (opt_logo (options this)))))
           @ '';base64,'' @ base64 ''<svg/>'' @ ''" alt="Logo">'')\<close>
      by (rule logoHtml_present)
    then show ?thesis unfolding that lp pe ext mt b64 by simp
  qed
  have out: "path_join ?h (outputDir ?p) (opt_outputFile (options ?p)) = ''/work/craft-report/report.html''"
    "path_join ?h (outputDir ?c) (opt_outputFile (options ?c)) = ''/work/craft-report/report.html''"
    by (simp_all add: CraftReporter_def plainOptions_def captureOptions_def orDefault_def Let_def
        captureHost_def sampleHost_def)
  have t1: "opt_title (options ?p) = ''Nightly''"
    by (simp add: CraftReporter_def plainOptions_def orDefault_def Let_def)
  have t2: "opt_title (options ?c) = ''Nightly <!-- INJECT_LOGO -->''"
    by (simp add: CraftReporter_def captureOptions_def orDefault_def Let_def)
  have i1: \<open>injectTemplate ?t [] [] json ''Nightly'' ?img
      = ''<title>Nightly</title><header><img src="data:image/svg+xml;base64,PHN2Zy8+" alt="Logo"></header>''\<close>
    for json
    by (simp add: injectTemplate_def injectContent_def replaceFirst_def replaceTitle_def)
  have i2: \<open>injectTemplate ?t [] [] json ''Nightly <!-- INJECT_LOGO -->'' ?img
      = ''<title>Nightly <img src="data:image/svg+xml;base64,PHN2Zy8+" alt="Logo"></title><header><!-- INJECT_LOGO --></header>''\<close>
    for json
    by (simp add: injectTemplate_def injectContent_def replaceFirst_def replaceTitle_def)
  have js: "JSON_stringify ?h d = ser d" by simp
  show ?thesis
    unfolding generateHTMLReport_writes [OF lt lg [OF lo(1)]]
      generateHTMLReport_writes [OF lt lg [OF lo(2)]] out t1 t2 js i1 i2
    by simp
qed




end
